theory Spec2Isabelle
  imports Main
begin

section \<open>cloudtag: allocation of a machine index through etcd\<close>

text \<open>
  The source is \<^verbatim>\<open>src/cloudtag/main.go\<close>. It holds two revisions of the program; they
  agree on \<^verbatim>\<open>etcdUrl\<close>, \<^verbatim>\<open>get\<close>, \<^verbatim>\<open>put\<close> and \<^verbatim>\<open>allocateIndex\<close> (up to the renaming of one
  flag) and differ in one line of \<^verbatim>\<open>findIndex\<close>. Both versions of \<^verbatim>\<open>findIndex\<close> are
  embedded below.

  Go's \<^verbatim>\<open>int\<close> is modelled by \<open>int\<close>: the only integers are loop counters between 0 and
  100, so no arithmetic can overflow. A Go result pair \<^verbatim>\<open>(value, err)\<close> is a sum, \<open>Inl\<close>
  the error. Calls of \<^verbatim>\<open>log.Printf\<close> under the \<^verbatim>\<open>verbose\<close> flag write to standard error
  only and are left out.
\<close>

subsection \<open>Formatting\<close>

text \<open>The verb \<^verbatim>\<open>%d\<close> of \<^verbatim>\<open>fmt.Sprintf\<close>: decimal digits, with a sign for negative numbers.\<close>

function digits :: "nat \<Rightarrow> string" where
  "digits n = (if n < 10 then [''0123456789'' ! n]
               else digits (n div 10) @ [''0123456789'' ! (n mod 10)])"
  by pat_completeness auto
termination
  by (relation "measure id") auto

definition fmt_d :: "int \<Rightarrow> string" where
  "fmt_d i = (if i < 0 then CHR ''-'' # digits (nat (- i)) else digits (nat i))"

subsection \<open>Constants, errors and data\<close>

definition maxMachineIndex :: int where
  "maxMachineIndex = 100"

definition maxEtcdRedirects :: int where
  "maxEtcdRedirects = 10"

definition StatusOK :: int where "StatusOK = 200"

definition StatusCreated :: int where "StatusCreated = 201"

definition StatusTemporaryRedirect :: int where "StatusTemporaryRedirect = 307"

definition StatusNotFound :: int where "StatusNotFound = 404"

definition StatusPreconditionFailed :: int where "StatusPreconditionFailed = 412"

text \<open>
  An error is either made by the program with \<^verbatim>\<open>errors.New\<close>, and then it is its
  message, or it comes out of the Go library (\<^verbatim>\<open>net/http\<close>, \<^verbatim>\<open>io/ioutil\<close>,
  \<^verbatim>\<open>encoding/json\<close>) and is opaque to the program.
\<close>

datatype error = New string | External string

record EtcdNode =
  Key :: string
  Value :: string

record EtcdOp =
  Action :: string
  Node :: EtcdNode

text \<open>
  What the program looks at in a \<^verbatim>\<open>*http.Response\<close>: the status code, the outcome of
  \<^verbatim>\<open>ioutil.ReadAll(res.Body)\<close> and the outcome of \<^verbatim>\<open>res.Location()\<close> rendered by
  \<^verbatim>\<open>String()\<close>.
\<close>

record response =
  StatusCode :: int
  Body :: "error + string"
  Location :: "error + string"

record request =
  Method :: string
  URL :: string
  Header :: "(string \<times> string) list"
  Payload :: string

definition Header_Set :: "request \<Rightarrow> string \<Rightarrow> string \<Rightarrow> request" where
  "Header_Set req k v = req\<lparr>Header := (k, v) # filter (\<lambda>kv. fst kv \<noteq> k) (Header req)\<rparr>"

text \<open>
  The library functions the program calls are parameters. The network is a state \<open>'w\<close>
  that \<^verbatim>\<open>http.Get\<close> and \<^verbatim>\<open>http.DefaultClient.Do\<close> read and change; \<open>fmt_v\<close> is the verb
  \<^verbatim>\<open>%+v\<close> applied to a response.
\<close>

record 'w lib =
  http_Get :: "string \<Rightarrow> 'w \<Rightarrow> (error + response) \<times> 'w"
  http_NewRequest :: "string \<Rightarrow> string \<Rightarrow> string \<Rightarrow> error + request"
  http_Do :: "request \<Rightarrow> 'w \<Rightarrow> (error + response) \<times> 'w"
  json_Unmarshal :: "string \<Rightarrow> error + EtcdOp"
  fmt_v :: "response \<Rightarrow> string"

subsection \<open>The program\<close>

definition etcdUrl :: "string \<Rightarrow> string \<Rightarrow> string \<Rightarrow> string \<Rightarrow> int \<Rightarrow> string" where
  "etcdUrl etcdAddress etcdPrefix tagPrefix tagName index =
     ''http://'' @ etcdAddress @ ''/v2/keys'' @ etcdPrefix @ ''/'' @ tagPrefix @ tagName
       @ ''/'' @ fmt_d index"

text \<open>The flags, global variables of the program that are set once by \<^verbatim>\<open>parseFlags\<close>.\<close>

record config =
  etcdAddress :: string
  etcdPrefix :: string
  tagName :: string
  tagPrefix :: string

definition slotUrl :: "config \<Rightarrow> int \<Rightarrow> string" where
  "slotUrl cfg index =
     etcdUrl (etcdAddress cfg) (etcdPrefix cfg) (tagPrefix cfg) (tagName cfg) index"

definition unknownReply :: "'w lib \<Rightarrow> response \<Rightarrow> error" where
  "unknownReply lib res = New (''Don't know how to handle ETCD reply '' @ fmt_v lib res)"

definition get :: "'w lib \<Rightarrow> config \<Rightarrow> int \<Rightarrow> 'w \<Rightarrow> (error + string) \<times> 'w" where
  "get lib cfg index w =
     (case http_Get lib (slotUrl cfg index) w of
        (Inl err, w') \<Rightarrow> (Inl err, w')
      | (Inr res, w') \<Rightarrow>
          if StatusCode res = StatusNotFound then (Inr '''', w')
          else if StatusCode res \<noteq> StatusOK then (Inl (unknownReply lib res), w')
          else (case Body res of
                  Inl err \<Rightarrow> (Inl err, w')
                | Inr bin \<Rightarrow>
                    (case json_Unmarshal lib bin of
                       Inl err \<Rightarrow> (Inl err, w')
                     | Inr j \<Rightarrow> (Inr (Value (Node j)), w'))))"

text \<open>
  The \<^verbatim>\<open>for put { ... }\<close> loop of \<^verbatim>\<open>put\<close>. It returns the last response, or the error that
  left the function from inside the loop.
\<close>

function put_loop ::
  "'w lib \<Rightarrow> string \<Rightarrow> string \<Rightarrow> int \<Rightarrow> 'w \<Rightarrow> (error + response) \<times> 'w" where
  "put_loop lib mid url redirects w =
     (if redirects > maxEtcdRedirects then
        (Inl (New (''Too much redirects ('' @ fmt_d maxEtcdRedirects
                     @ '') from ETCD while creating key '' @ url)), w)
      else
        (case http_NewRequest lib ''PUT'' url (''value='' @ mid) of
           Inl err \<Rightarrow> (Inl err, w)
         | Inr req \<Rightarrow>
             (case http_Do lib
                     (Header_Set req ''Content-Type'' ''application/x-www-form-urlencoded'') w of
                (Inl err, w') \<Rightarrow> (Inl err, w')
              | (Inr res, w') \<Rightarrow>
                  if StatusCode res = StatusTemporaryRedirect then
                    (case Location res of
                       Inl err \<Rightarrow> (Inl err, w')
                     | Inr masterUrl \<Rightarrow> put_loop lib mid masterUrl (redirects + 1) w')
                  else (Inr res, w'))))"
  by pat_completeness auto
termination
  by (relation "measure (\<lambda>(lib, mid, url, redirects, w). nat (maxEtcdRedirects + 1 - redirects))")
     auto

definition put :: "'w lib \<Rightarrow> config \<Rightarrow> string \<Rightarrow> int \<Rightarrow> 'w \<Rightarrow> (error + bool) \<times> 'w" where
  "put lib cfg mid index w =
     (case put_loop lib mid (slotUrl cfg index @ ''?prevExist=false'') 0 w of
        (Inl err, w') \<Rightarrow> (Inl err, w')
      | (Inr res, w') \<Rightarrow>
          if StatusCode res = StatusPreconditionFailed then (Inr False, w')
          else if StatusCode res \<noteq> StatusCreated then (Inl (unknownReply lib res), w')
          else (Inr True, w'))"

function allocateIndex ::
  "'w lib \<Rightarrow> config \<Rightarrow> string \<Rightarrow> int \<Rightarrow> 'w \<Rightarrow> (error + int) \<times> 'w" where
  "allocateIndex lib cfg mid i w =
     (if i < maxMachineIndex then
        (case put lib cfg mid i w of
           (Inl err, w') \<Rightarrow> (Inl err, w')
         | (Inr ok, w') \<Rightarrow>
             if ok then (Inr i, w') else allocateIndex lib cfg mid (i + 1) w')
      else
        (Inl (New (''Cannot allocate machine index - all slots are busy, checked ''
                     @ fmt_d maxMachineIndex @ '' slots'')), w))"
  by pat_completeness auto
termination
  by (relation "measure (\<lambda>(lib, cfg, mid, i, w). nat (maxMachineIndex - i))") auto

text \<open>The loop of \<^verbatim>\<open>findIndex\<close> (lines 144 to 160), from the index \<open>i\<close> on.\<close>

function findIndex_loop ::
  "'w lib \<Rightarrow> config \<Rightarrow> string \<Rightarrow> int \<Rightarrow> 'w \<Rightarrow> (error + int) \<times> 'w" where
  "findIndex_loop lib cfg mid i w =
     (if i < maxMachineIndex then
        (case get lib cfg i w of
           (Inl err, w') \<Rightarrow> (Inl err, w')
         | (Inr maybe, w') \<Rightarrow>
             if maybe = mid then (Inr i, w')
             else if maybe = '''' then allocateIndex lib cfg mid i w'
             else findIndex_loop lib cfg mid (i + 1) w')
      else
        (Inl (New (''Cannot find machine index - all slots are busy, checked ''
                     @ fmt_d maxMachineIndex @ '' slots'')), w))"
  by pat_completeness auto
termination
  by (relation "measure (\<lambda>(lib, cfg, mid, i, w). nat (maxMachineIndex - i))") auto

definition findIndex :: "'w lib \<Rightarrow> config \<Rightarrow> string \<Rightarrow> 'w \<Rightarrow> (error + int) \<times> 'w" where
  "findIndex lib cfg mid w = findIndex_loop lib cfg mid 1 w"

text \<open>
  The other revision of \<^verbatim>\<open>findIndex\<close> (lines 485 to 501). It differs in the branch taken
  when \<^verbatim>\<open>get\<close> fails: \<^verbatim>\<open>return 0, nil\<close>.
\<close>

function findIndex_loop_485 ::
  "'w lib \<Rightarrow> config \<Rightarrow> string \<Rightarrow> int \<Rightarrow> 'w \<Rightarrow> (error + int) \<times> 'w" where
  "findIndex_loop_485 lib cfg mid i w =
     (if i < maxMachineIndex then
        (case get lib cfg i w of
           (Inl err, w') \<Rightarrow> (Inr 0, w')
         | (Inr maybe, w') \<Rightarrow>
             if maybe = mid then (Inr i, w')
             else if maybe = '''' then allocateIndex lib cfg mid i w'
             else findIndex_loop_485 lib cfg mid (i + 1) w')
      else
        (Inl (New (''Cannot find machine index - all slots are busy, checked ''
                     @ fmt_d maxMachineIndex @ '' slots'')), w))"
  by pat_completeness auto
termination
  by (relation "measure (\<lambda>(lib, cfg, mid, i, w). nat (maxMachineIndex - i))") auto

definition findIndex_485 :: "'w lib \<Rightarrow> config \<Rightarrow> string \<Rightarrow> 'w \<Rightarrow> (error + int) \<times> 'w" where
  "findIndex_485 lib cfg mid w = findIndex_loop_485 lib cfg mid 1 w"

text \<open>
  The states a run of \<^verbatim>\<open>findIndex\<close> from the network \<open>w0\<close> goes through: the scan is about
  to read slot \<open>i\<close> on the network \<open>w\<close>, and the claim phase is about to create slot
  \<open>i\<close> on the network \<open>w\<close>.
\<close>

inductive scanning :: "'w lib \<Rightarrow> config \<Rightarrow> string \<Rightarrow> 'w \<Rightarrow> int \<Rightarrow> 'w \<Rightarrow> bool"
  for lib cfg mid w0 where
  first: "scanning lib cfg mid w0 1 w0"
| other: "scanning lib cfg mid w0 i w \<Longrightarrow> i < maxMachineIndex \<Longrightarrow>
          get lib cfg i w = (Inr v, w') \<Longrightarrow> v \<noteq> mid \<Longrightarrow> v \<noteq> [] \<Longrightarrow>
          scanning lib cfg mid w0 (i + 1) w'"

inductive claiming :: "'w lib \<Rightarrow> config \<Rightarrow> string \<Rightarrow> 'w \<Rightarrow> int \<Rightarrow> 'w \<Rightarrow> bool"
  for lib cfg mid w0 where
  free: "scanning lib cfg mid w0 i w \<Longrightarrow> i < maxMachineIndex \<Longrightarrow>
         get lib cfg i w = (Inr [], w') \<Longrightarrow> mid \<noteq> [] \<Longrightarrow>
         claiming lib cfg mid w0 i w'"
| lost: "claiming lib cfg mid w0 i w \<Longrightarrow> i < maxMachineIndex \<Longrightarrow>
         put lib cfg mid i w = (Inr False, w') \<Longrightarrow>
         claiming lib cfg mid w0 (i + 1) w'"

declare digits.simps [simp del]

declare put_loop.simps [simp del]

declare allocateIndex.simps [simp del]

declare findIndex_loop.simps [simp del]

declare findIndex_loop_485.simps [simp del]

subsection \<open>The coordination store\<close>

text \<open>
  The etcd cluster is not part of the program. It is modelled as the wire contract
  describes it: a store of keys, read by \<^verbatim>\<open>GET\<close>, written by \<^verbatim>\<open>PUT\<close>, where a \<^verbatim>\<open>PUT\<close>
  with the query \<^verbatim>\<open>?prevExist=false\<close> creates the key if it is absent (201) and fails
  if it is present (412). The store is an association list, the first entry of a key
  being its value.

  What else happens on the network is a script that the requests consume: before a
  request is handled other machines may create keys (\<open>Rival\<close>), the request may fail
  in transport (\<open>Outage\<close>), a follower may redirect it to the leader at another host,
  keeping path and query (\<open>Redirect\<close>), or the leader serves it (\<open>Deliver\<close>, and
  also when the script is exhausted). Every request that is sent is recorded.

  Two simplifications. The store takes the value of a key from the form body as it is
  written, after \<^verbatim>\<open>value=\<close>: the identities of the program are the hexadecimal strings
  of \<^verbatim>\<open>/etc/machine-id\<close>, which form decoding leaves as they are. And a redirect that
  answers a read is handed to \<^verbatim>\<open>get\<close> as the response; \<^verbatim>\<open>http.Get\<close> following it on its own
  is not modelled.
\<close>

datatype event = Rival string string | Outage error | Redirect string | Deliver

record etcd =
  store :: "(string \<times> string) list"
  script :: "event list"
  received :: "request list"

text \<open>
  The store reads an address \<^verbatim>\<open>http://host/path?query\<close> as a key, the path, and a
  query.
\<close>

definition path_query :: "string \<Rightarrow> string" where
  "path_query url = dropWhile (\<lambda>c. c \<noteq> CHR ''/'') (drop 7 url)"

definition key_of :: "string \<Rightarrow> string" where
  "key_of url = takeWhile (\<lambda>c. c \<noteq> CHR ''?'') (path_query url)"

definition query_of :: "string \<Rightarrow> string" where
  "query_of url = dropWhile (\<lambda>c. c \<noteq> CHR ''?'') (path_query url)"

text \<open>
  Creation of a key if it is absent, and the write without precondition, which etcd
  answers to a \<^verbatim>\<open>PUT\<close> that carries no query.
\<close>

definition create :: "(string \<times> string) list \<Rightarrow> string \<Rightarrow> string \<Rightarrow> (string \<times> string) list" where
  "create s k v = (case map_of s k of None \<Rightarrow> s @ [(k, v)] | Some _ \<Rightarrow> s)"

definition overwrite :: "(string \<times> string) list \<Rightarrow> string \<Rightarrow> string \<Rightarrow> (string \<times> string) list" where
  "overwrite s k v = (k, v) # filter (\<lambda>kv. fst kv \<noteq> k) s"

definition reply :: "int \<Rightarrow> response" where
  "reply code = \<lparr>StatusCode = code, Body = Inr [],
                  Location = Inl (External ''http: no Location header in response'')\<rparr>"

definition answer ::
  "(string \<Rightarrow> string \<Rightarrow> string) \<Rightarrow> (string \<times> string) list \<Rightarrow> request
     \<Rightarrow> response \<times> (string \<times> string) list" where
  "answer marshal s req =
     (let k = key_of (URL req) in
      if Method req = ''GET'' then
        (case map_of s k of
           None \<Rightarrow> (reply 404, s)
         | Some v \<Rightarrow> ((reply 200)\<lparr>Body := Inr (marshal k v)\<rparr>, s))
      else if Method req = ''PUT'' then
        (let v = drop 6 (Payload req) in
         if query_of (URL req) = ''?prevExist=false'' then
           (case map_of s k of
              None \<Rightarrow> (reply 201, s @ [(k, v)])
            | Some _ \<Rightarrow> (reply 412, s))
         else
           (case map_of s k of
              None \<Rightarrow> (reply 201, overwrite s k v)
            | Some _ \<Rightarrow> (reply 200, overwrite s k v)))
      else (reply 405, s))"

fun handle ::
  "(string \<Rightarrow> string \<Rightarrow> string) \<Rightarrow> request \<Rightarrow> (string \<times> string) list \<Rightarrow> event list
     \<Rightarrow> (error + response) \<times> (string \<times> string) list \<times> event list" where
  "handle marshal req s (Rival k v # evs) = handle marshal req (create s k v) evs"
| "handle marshal req s (Outage e # evs) = (Inl e, s, evs)"
| "handle marshal req s (Redirect host # evs) =
     (Inr ((reply 307)\<lparr>Location := Inr (''http://'' @ host @ path_query (URL req))\<rparr>), s, evs)"
| "handle marshal req s (Deliver # evs) =
     (case answer marshal s req of (res, s') \<Rightarrow> (Inr res, s', evs))"
| "handle marshal req s [] =
     (case answer marshal s req of (res, s') \<Rightarrow> (Inr res, s', []))"

definition serve ::
  "(string \<Rightarrow> string \<Rightarrow> string) \<Rightarrow> request \<Rightarrow> etcd \<Rightarrow> (error + response) \<times> etcd" where
  "serve marshal req w =
     (case handle marshal req (store w) (script w) of
        (r, s, evs) \<Rightarrow> (r, \<lparr>store = s, script = evs, received = received w @ [req]\<rparr>))"

text \<open>
  The library over this network. The encoder of the store and \<^verbatim>\<open>json.Unmarshal\<close> stay
  parameters, related by \<open>codec_ok\<close>: decoding the envelope the store sends for a key
  gives back the value of the key.
\<close>

definition etcd_lib ::
  "(string \<Rightarrow> string \<Rightarrow> string) \<Rightarrow> (string \<Rightarrow> error + EtcdOp) \<Rightarrow> etcd lib" where
  "etcd_lib marshal unmarshal =
     \<lparr>http_Get = (\<lambda>url. serve marshal \<lparr>Method = ''GET'', URL = url, Header = [], Payload = []\<rparr>),
      http_NewRequest = (\<lambda>m url body. Inr \<lparr>Method = m, URL = url, Header = [], Payload = body\<rparr>),
      http_Do = serve marshal,
      json_Unmarshal = unmarshal,
      fmt_v = (\<lambda>res. fmt_d (StatusCode res))\<rparr>"

definition codec_ok :: "(string \<Rightarrow> string \<Rightarrow> string) \<Rightarrow> (string \<Rightarrow> error + EtcdOp) \<Rightarrow> bool" where
  "codec_ok marshal unmarshal =
     (\<forall>k v. \<exists>j. unmarshal (marshal k v) = Inr j \<and> Value (Node j) = v)"

text \<open>A codec for running examples: the envelope is the bare value.\<close>

definition bare_marshal :: "string \<Rightarrow> string \<Rightarrow> string" where
  "bare_marshal k v = v"

definition bare_unmarshal :: "string \<Rightarrow> error + EtcdOp" where
  "bare_unmarshal bin = Inr \<lparr>Action = ''get'', Node = \<lparr>Key = [], Value = bin\<rparr>\<rparr>"

definition demo :: config where
  "demo = \<lparr>etcdAddress = ''localhost:4001'', etcdPrefix = ''/cloudtag'',
            tagName = ''Name'', tagPrefix = ''machine-''\<rparr>"

definition quiet :: "(string \<times> string) list \<Rightarrow> etcd" where
  "quiet s = \<lparr>store = s, script = [], received = []\<rparr>"

text \<open>The key of a slot in the store, and the two requests of the program.\<close>

definition slotKey :: "config \<Rightarrow> int \<Rightarrow> string" where
  "slotKey cfg i = key_of (slotUrl cfg i)"

definition readRequest :: "config \<Rightarrow> int \<Rightarrow> request" where
  "readRequest cfg i = \<lparr>Method = ''GET'', URL = slotUrl cfg i, Header = [], Payload = []\<rparr>"

definition writeRequest :: "string \<Rightarrow> string \<Rightarrow> request" where
  "writeRequest mid url =
     \<lparr>Method = ''PUT'', URL = url,
      Header = [(''Content-Type'', ''application/x-www-form-urlencoded'')],
      Payload = ''value='' @ mid\<rparr>"

text \<open>The locations a request for \<open>url\<close> is sent to when it is redirected to \<open>hosts\<close> in turn.\<close>

fun targets :: "string \<Rightarrow> string list \<Rightarrow> string list" where
  "targets url [] = [url]"
| "targets url (host # hosts) = url # targets (''http://'' @ host @ path_query url) hosts"

text \<open>
  Flags without a question mark, so that the query of a write is the precondition, and
  host names without a slash, so that a redirect keeps the key.
\<close>

definition plain :: "config \<Rightarrow> bool" where
  "plain cfg =
     (CHR ''?'' \<notin> set (etcdAddress cfg @ etcdPrefix cfg @ tagPrefix cfg @ tagName cfg))"

fun plain_host :: "event \<Rightarrow> bool" where
  "plain_host (Redirect host) = (CHR ''/'' \<notin> set host)"
| "plain_host _ = True"

text \<open>Slot \<open>j\<close> is owned by an identity (a non-empty string) other than \<open>mid\<close>.\<close>

definition taken :: "(string \<times> string) list \<Rightarrow> config \<Rightarrow> string \<Rightarrow> int \<Rightarrow> bool" where
  "taken s cfg mid j =
     (case map_of s (slotKey cfg j) of None \<Rightarrow> False | Some v \<Rightarrow> v \<noteq> mid \<and> v \<noteq> [])"

text \<open>Networks for the examples.\<close>

definition demo_lib :: "etcd lib" where
  "demo_lib = etcd_lib bare_marshal bare_unmarshal"

definition demo_A :: etcd where
  "demo_A = snd (findIndex demo_lib demo ''host-A'' (quiet []))"

definition demo_race :: etcd where
  "demo_race = \<lparr>store = [], script = [Deliver, Rival (slotKey demo 1) ''host-B''], received = []\<rparr>"

definition demo_B :: etcd where
  "demo_B = snd (findIndex demo_lib demo ''host-B'' (quiet []))"

definition demo_AB :: etcd where
  "demo_AB = snd (findIndex demo_lib demo ''host-B'' demo_A)"

definition demo_gap :: etcd where
  "demo_gap = quiet [(slotKey demo 2, ''host-A'')]"

definition demo_full :: etcd where
  "demo_full = quiet (map (\<lambda>j. (slotKey demo j, ''host-Z'')) [1..99])"

definition demo_blank :: etcd where
  "demo_blank = quiet [(slotKey demo 1, ''host-A''), (slotKey demo 2, [])]"

definition demo_lost :: etcd where
  "demo_lost = \<lparr>store = [], script = map Redirect
     [''n1:4001'', ''n2:4001'', ''n3:4001'', ''n1:4001'', ''n2:4001'', ''n3:4001'',
      ''n1:4001'', ''n2:4001'', ''n3:4001'', ''n1:4001'', ''n2:4001''] @ [Deliver],
     received = []\<rparr>"

definition demo_follower :: etcd where
  "demo_follower = \<lparr>store = [], script = map Redirect [''n1:4001'', ''n2:4001''],
     received = []\<rparr>"

definition demo_down :: etcd where
  "demo_down = \<lparr>store = [], script = [Outage (External ''connection refused'')], received = []\<rparr>"

section \<open>Properties that hold over every network\<close>

subsection \<open>One iteration of each loop\<close>

lemma findIndex_loop_get_error:
  "i < maxMachineIndex \<Longrightarrow> get lib cfg i w = (Inl e, w') \<Longrightarrow>
   findIndex_loop lib cfg mid i w = (Inl e, w')"
  by (simp add: findIndex_loop.simps [of lib cfg mid i w])

lemma findIndex_loop_own:
  "i < maxMachineIndex \<Longrightarrow> get lib cfg i w = (Inr mid, w') \<Longrightarrow>
   findIndex_loop lib cfg mid i w = (Inr i, w')"
  by (simp add: findIndex_loop.simps [of lib cfg mid i w])

lemma findIndex_loop_free:
  "i < maxMachineIndex \<Longrightarrow> get lib cfg i w = (Inr [], w') \<Longrightarrow> mid \<noteq> [] \<Longrightarrow>
   findIndex_loop lib cfg mid i w = allocateIndex lib cfg mid i w'"
  by (simp add: findIndex_loop.simps [of lib cfg mid i w])

lemma findIndex_loop_other:
  "i < maxMachineIndex \<Longrightarrow> get lib cfg i w = (Inr v, w') \<Longrightarrow> v \<noteq> mid \<Longrightarrow> v \<noteq> [] \<Longrightarrow>
   findIndex_loop lib cfg mid i w = findIndex_loop lib cfg mid (i + 1) w'"
  by (simp add: findIndex_loop.simps [of lib cfg mid i w])

lemma allocateIndex_put_error:
  "i < maxMachineIndex \<Longrightarrow> put lib cfg mid i w = (Inl e, w') \<Longrightarrow>
   allocateIndex lib cfg mid i w = (Inl e, w')"
  by (simp add: allocateIndex.simps [of lib cfg mid i w])

lemma allocateIndex_won:
  "i < maxMachineIndex \<Longrightarrow> put lib cfg mid i w = (Inr True, w') \<Longrightarrow>
   allocateIndex lib cfg mid i w = (Inr i, w')"
  by (simp add: allocateIndex.simps [of lib cfg mid i w])

lemma allocateIndex_lost:
  "i < maxMachineIndex \<Longrightarrow> put lib cfg mid i w = (Inr False, w') \<Longrightarrow>
   allocateIndex lib cfg mid i w = allocateIndex lib cfg mid (i + 1) w'"
  by (simp add: allocateIndex.simps [of lib cfg mid i w])

lemma fmt_d_100: "fmt_d 100 = ''100''"
  by code_simp

lemma allocateIndex_full:
  "\<not> i < maxMachineIndex \<Longrightarrow>
   allocateIndex lib cfg mid i w =
     (Inl (New ''Cannot allocate machine index - all slots are busy, checked 100 slots''), w)"
  by (simp add: allocateIndex.simps [of lib cfg mid i w] maxMachineIndex_def fmt_d_100)

lemma findIndex_loop_full:
  "\<not> i < maxMachineIndex \<Longrightarrow>
   findIndex_loop lib cfg mid i w =
     (Inl (New ''Cannot find machine index - all slots are busy, checked 100 slots''), w)"
  by (simp add: findIndex_loop.simps [of lib cfg mid i w] maxMachineIndex_def fmt_d_100)

lemma put_loop_answer:
  "redirects \<le> maxEtcdRedirects \<Longrightarrow>
   http_NewRequest lib ''PUT'' url (''value='' @ mid) = Inr req \<Longrightarrow>
   http_Do lib (Header_Set req ''Content-Type'' ''application/x-www-form-urlencoded'') w
     = (Inr res, w') \<Longrightarrow>
   StatusCode res \<noteq> StatusTemporaryRedirect \<Longrightarrow>
   put_loop lib mid url redirects w = (Inr res, w')"
  by (simp add: put_loop.simps [of lib mid url redirects w])

lemma put_precondition_failed:
  "put_loop lib mid (slotUrl cfg i @ ''?prevExist=false'') 0 w = (Inr res, w') \<Longrightarrow>
   StatusCode res = StatusPreconditionFailed \<Longrightarrow>
   put lib cfg mid i w = (Inr False, w')"
  by (simp add: put_def)

subsection \<open>The range of a returned index\<close>

lemma allocateIndex_range:
  "allocateIndex lib cfg mid i w = (Inr n, w') \<Longrightarrow> i \<le> n \<and> n < maxMachineIndex"
proof (induction lib cfg mid i w rule: allocateIndex.induct)
  case (1 lib cfg mid i w)
  from "1.prems" "1.IH" show ?case
    by (subst (asm) allocateIndex.simps) (fastforce split: if_splits prod.splits sum.splits)
qed

lemma findIndex_loop_range:
  "findIndex_loop lib cfg mid i w = (Inr n, w') \<Longrightarrow> i \<le> n \<and> n < maxMachineIndex"
proof (induction lib cfg mid i w rule: findIndex_loop.induct)
  case (1 lib cfg mid i w)
  from "1.prems" "1.IH" show ?case
    by (subst (asm) findIndex_loop.simps)
       (fastforce split: if_splits prod.splits sum.splits dest: allocateIndex_range)
qed

text \<open>
  C8. Whenever \<^verbatim>\<open>findIndex\<close> returns without error, the index it returns is at least 1
  and at most 99, for every network and every identity; so does \<^verbatim>\<open>allocateIndex\<close>
  started at an index of at least 1, which is how \<^verbatim>\<open>findIndex\<close> calls it.
\<close>

theorem index_in_range:
  "(findIndex lib cfg mid w = (Inr n, w') \<longrightarrow> 1 \<le> n \<and> n \<le> 99) \<and>
   (1 \<le> start \<and> allocateIndex lib cfg mid start v = (Inr k, v') \<longrightarrow> 1 \<le> k \<and> k \<le> 99)"
  using findIndex_loop_range [of lib cfg mid 1 w n w']
    allocateIndex_range [of lib cfg mid start v k v']
  by (auto simp: findIndex_def maxMachineIndex_def)

theorem index_in_range_witness:
  "findIndex demo_lib demo ''host-A'' (quiet []) = (Inr 1, demo_A) \<and> (1::int) \<le> 1 \<and>
   allocateIndex demo_lib demo ''host-A'' 1 demo_A
     = (Inr 2, snd (allocateIndex demo_lib demo ''host-A'' 1 demo_A)) \<and>
   (1::int) \<le> 2 \<and> (2::int) \<le> 99"
proof -
  have a: "findIndex demo_lib demo ''host-A'' (quiet []) = (Inr 1, demo_A)"
    by code_simp
  have b: "allocateIndex demo_lib demo ''host-A'' 1 demo_A
             = (Inr 2, snd (allocateIndex demo_lib demo ''host-A'' 1 demo_A))"
    by code_simp
  from index_in_range [of demo_lib demo "''host-A''" "quiet []" 1 demo_A 1 demo_A 2
      "snd (allocateIndex demo_lib demo ''host-A'' 1 demo_A)"]
    a b show ?thesis by simp
qed

subsection \<open>Outcomes that are not errors\<close>

text \<open>
  C6. A response 404 to the read makes \<^verbatim>\<open>get\<close> return the empty value with no error,
  and a response 412 to the conditional create makes \<^verbatim>\<open>put\<close> return false with no
  error. Neither aborts the allocation: on the empty value the scan of an identity
  (a non-empty string) goes on as the claim phase at the same index, and on false the
  claim phase goes on at the next index.
\<close>

theorem negative_outcomes_are_not_errors:
  "(http_Get lib (slotUrl cfg i) w = (Inr res, w') \<and> StatusCode res = StatusNotFound
      \<longrightarrow> get lib cfg i w = (Inr [], w')) \<and>
   (http_NewRequest lib ''PUT'' (slotUrl cfg i @ ''?prevExist=false'') (''value='' @ mid)
      = Inr req \<and>
    http_Do lib (Header_Set req ''Content-Type'' ''application/x-www-form-urlencoded'') w
      = (Inr res, w') \<and> StatusCode res = StatusPreconditionFailed
      \<longrightarrow> put lib cfg mid i w = (Inr False, w')) \<and>
   (i < maxMachineIndex \<and> mid \<noteq> [] \<and> get lib cfg i w = (Inr [], w')
      \<longrightarrow> findIndex_loop lib cfg mid i w = allocateIndex lib cfg mid i w') \<and>
   (i < maxMachineIndex \<and> put lib cfg mid i w = (Inr False, w')
      \<longrightarrow> allocateIndex lib cfg mid i w = allocateIndex lib cfg mid (i + 1) w')"
proof (intro conjI impI)
  assume "http_Get lib (slotUrl cfg i) w = (Inr res, w') \<and> StatusCode res = StatusNotFound"
  then show "get lib cfg i w = (Inr [], w')"
    by (simp add: get_def)
next
  assume a: "http_NewRequest lib ''PUT'' (slotUrl cfg i @ ''?prevExist=false'')
               (''value='' @ mid) = Inr req \<and>
    http_Do lib (Header_Set req ''Content-Type'' ''application/x-www-form-urlencoded'') w
      = (Inr res, w') \<and> StatusCode res = StatusPreconditionFailed"
  then have "put_loop lib mid (slotUrl cfg i @ ''?prevExist=false'') 0 w = (Inr res, w')"
    by (intro put_loop_answer [where req = req])
       (simp_all add: maxEtcdRedirects_def StatusPreconditionFailed_def
          StatusTemporaryRedirect_def)
  with a show "put lib cfg mid i w = (Inr False, w')"
    by (simp add: put_precondition_failed)
next
  assume "i < maxMachineIndex \<and> mid \<noteq> [] \<and> get lib cfg i w = (Inr [], w')"
  then show "findIndex_loop lib cfg mid i w = allocateIndex lib cfg mid i w'"
    by (simp add: findIndex_loop_free)
next
  assume "i < maxMachineIndex \<and> put lib cfg mid i w = (Inr False, w')"
  then show "allocateIndex lib cfg mid i w = allocateIndex lib cfg mid (i + 1) w'"
    by (simp add: allocateIndex_lost)
qed

theorem negative_outcomes_are_not_errors_witness:
  "get demo_lib demo 2 demo_A = (Inr [], snd (get demo_lib demo 2 demo_A)) \<and>
   findIndex_loop demo_lib demo ''host-B'' 2 demo_A
     = allocateIndex demo_lib demo ''host-B'' 2 (snd (get demo_lib demo 2 demo_A)) \<and>
   put demo_lib demo ''host-B'' 1 demo_A
     = (Inr False, snd (put demo_lib demo ''host-B'' 1 demo_A)) \<and>
   allocateIndex demo_lib demo ''host-B'' 1 demo_A
     = allocateIndex demo_lib demo ''host-B'' 2 (snd (put demo_lib demo ''host-B'' 1 demo_A))"
proof -
  let ?g = "snd (get demo_lib demo 2 demo_A)"
  let ?p = "snd (put demo_lib demo ''host-B'' 1 demo_A)"
  let ?req = "\<lparr>Method = ''PUT'', URL = slotUrl demo 1 @ ''?prevExist=false'', Header = [],
               Payload = ''value=host-B''\<rparr>"
  have g: "http_Get demo_lib (slotUrl demo 2) demo_A = (Inr (reply 404), ?g)"
    by code_simp
  have n: "http_NewRequest demo_lib ''PUT'' (slotUrl demo 1 @ ''?prevExist=false'')
             (''value='' @ ''host-B'') = Inr ?req"
    by code_simp
  have d: "http_Do demo_lib
             (Header_Set ?req ''Content-Type'' ''application/x-www-form-urlencoded'') demo_A
             = (Inr (reply 412), ?p)"
    by code_simp
  have s: "StatusCode (reply 404) = StatusNotFound"
    "StatusCode (reply 412) = StatusPreconditionFailed"
    by (simp_all add: reply_def StatusNotFound_def StatusPreconditionFailed_def)
  have m: "(2::int) < maxMachineIndex" "(1::int) < maxMachineIndex" "''host-B'' \<noteq> []"
    by (simp_all add: maxMachineIndex_def)
  from negative_outcomes_are_not_errors
         [where lib = demo_lib and cfg = demo and i = 2 and w = demo_A and res = "reply 404"
            and w' = ?g and mid = "''host-B''"]
       negative_outcomes_are_not_errors
         [where lib = demo_lib and cfg = demo and i = 1 and w = demo_A and res = "reply 412"
            and w' = ?p and mid = "''host-B''" and req = ?req]
       g n d s m
  show ?thesis by simp
qed

subsection \<open>Errors of the store\<close>

lemma findIndex_loop_485_get_error:
  "i < maxMachineIndex \<Longrightarrow> get lib cfg i w = (Inl e, w') \<Longrightarrow>
   findIndex_loop_485 lib cfg mid i w = (Inr 0, w')"
  by (simp add: findIndex_loop_485.simps [of lib cfg mid i w])

lemma scanning_findIndex:
  "scanning lib cfg mid w0 i w \<Longrightarrow> findIndex lib cfg mid w0 = findIndex_loop lib cfg mid i w"
  by (induction rule: scanning.induct) (simp_all add: findIndex_def findIndex_loop_other)

lemma scanning_findIndex_485:
  "scanning lib cfg mid w0 i w \<Longrightarrow>
   findIndex_485 lib cfg mid w0 = findIndex_loop_485 lib cfg mid i w"
  by (induction rule: scanning.induct)
     (simp_all add: findIndex_485_def findIndex_loop_485.simps [of lib cfg mid _ _])

lemma claiming_findIndex:
  "claiming lib cfg mid w0 i w \<Longrightarrow> findIndex lib cfg mid w0 = allocateIndex lib cfg mid i w"
  by (induction rule: claiming.induct)
     (simp_all add: scanning_findIndex findIndex_loop_free allocateIndex_lost)

text \<open>
  In the revision of lines 144 to 160 an error of \<^verbatim>\<open>get\<close> in the scan or of \<^verbatim>\<open>put\<close> in the
  claim phase is the result of the whole run.
\<close>

lemma findIndex_aborts:
  "(scanning lib cfg mid w0 i w \<and> i < maxMachineIndex \<and> get lib cfg i w = (Inl e, w')
      \<longrightarrow> findIndex lib cfg mid w0 = (Inl e, w')) \<and>
   (claiming lib cfg mid w0 i w \<and> i < maxMachineIndex \<and> put lib cfg mid i w = (Inl e, w')
      \<longrightarrow> findIndex lib cfg mid w0 = (Inl e, w'))"
  using scanning_findIndex [of lib cfg mid w0 i w] claiming_findIndex [of lib cfg mid w0 i w]
    findIndex_loop_get_error [of i lib cfg w e w' mid]
    allocateIndex_put_error [of i lib cfg mid w e w']
  by auto

text \<open>In the revision of lines 485 to 501 every error of \<^verbatim>\<open>get\<close> in the scan is lost.\<close>

lemma findIndex_485_loses_error:
  "scanning lib cfg mid w0 i w \<Longrightarrow> i < maxMachineIndex \<Longrightarrow> get lib cfg i w = (Inl e, w') \<Longrightarrow>
   findIndex_485 lib cfg mid w0 = (Inr 0, w')"
  using scanning_findIndex_485 [of lib cfg mid w0 i w]
    findIndex_loop_485_get_error [of i lib cfg w e w' mid]
  by auto

text \<open>
  C4. An error of \<^verbatim>\<open>get\<close> or \<^verbatim>\<open>put\<close> has to come out of \<^verbatim>\<open>findIndex\<close>. The revision at
  lines 144 to 160 does that (\<open>findIndex_aborts\<close>). The revision at lines 485 to 501
  does not: when the store refuses the connection of the first read, \<^verbatim>\<open>get\<close> returns
  the error, and this \<^verbatim>\<open>findIndex\<close> returns the index 0 with no error, where the other
  revision returns the error.
\<close>

theorem findIndex_485_swallows_error:
  "get demo_lib demo 1 demo_down
     = (Inl (External ''connection refused''), snd (get demo_lib demo 1 demo_down)) \<and>
   findIndex_485 demo_lib demo ''host-A'' demo_down
     = (Inr 0, snd (get demo_lib demo 1 demo_down)) \<and>
   findIndex demo_lib demo ''host-A'' demo_down
     = (Inl (External ''connection refused''), snd (get demo_lib demo 1 demo_down))"
  by code_simp

section \<open>Properties over the coordination store\<close>

subsection \<open>Addresses\<close>

lemma digits_chars: "set (digits n) \<subseteq> set ''0123456789''"
proof (induction n rule: digits.induct)
  case (1 n)
  have d: "''0123456789'' ! k \<in> set ''0123456789''" if "k < 10" for k
    using that by (intro nth_mem) simp
  show ?case
  proof (cases "n < 10")
    case True
    with d [of n] show ?thesis by (subst digits.simps) simp
  next
    case False
    with d [of "n mod 10"] "1" show ?thesis
      by (subst digits.simps) simp
  qed
qed

lemma fmt_d_no_mark: "CHR ''?'' \<notin> set (fmt_d i)"
  using digits_chars [of "nat i"] digits_chars [of "nat (- i)"]
  by (auto simp: fmt_d_def)

lemma slotUrl_split:
  "slotUrl cfg i = ''http://'' @ (etcdAddress cfg @ ''/v2/keys'' @ etcdPrefix cfg @ ''/''
     @ tagPrefix cfg @ tagName cfg @ ''/'' @ fmt_d i)"
  by (simp add: slotUrl_def etcdUrl_def)

lemma dropWhile_append_stop:
  "\<not> P y \<Longrightarrow> dropWhile P ((xs @ y # ys) @ zs) = dropWhile P (xs @ y # ys) @ zs"
  by (rule dropWhile_append1 [where x = y]) simp_all

lemma path_query_slotUrl_append:
  "path_query (slotUrl cfg i @ q) = path_query (slotUrl cfg i) @ q"
proof -
  let ?rest = "''v2/keys'' @ etcdPrefix cfg @ ''/'' @ tagPrefix cfg @ tagName cfg @ ''/'' @ fmt_d i"
  have "slotUrl cfg i = ''http://'' @ (etcdAddress cfg @ CHR ''/'' # ?rest)"
    by (simp add: slotUrl_split)
  then show ?thesis
    using dropWhile_append_stop [of "\<lambda>c. c \<noteq> CHR ''/''" "CHR ''/''" "etcdAddress cfg" ?rest q]
    by (simp add: path_query_def)
qed

lemma key_of_write: "key_of (slotUrl cfg i @ ''?prevExist=false'') = slotKey cfg i"
  by (simp add: key_of_def slotKey_def path_query_slotUrl_append takeWhile_tail)

lemma path_query_chars: "set (path_query url) \<subseteq> set url"
  by (auto simp: path_query_def dest: set_dropWhileD in_set_dropD)

lemma plain_slotUrl: "plain cfg \<Longrightarrow> CHR ''?'' \<notin> set (path_query (slotUrl cfg i))"
proof -
  assume "plain cfg"
  then have "CHR ''?'' \<notin> set (slotUrl cfg i)"
    using fmt_d_no_mark [of i] by (simp add: plain_def slotUrl_split)
  then show ?thesis using path_query_chars by blast
qed

lemma query_of_write:
  assumes "plain cfg"
  shows "query_of (slotUrl cfg i @ ''?prevExist=false'') = ''?prevExist=false''"
proof -
  have "\<And>c. c \<in> set (path_query (slotUrl cfg i)) \<Longrightarrow> c \<noteq> CHR ''?''"
    using plain_slotUrl [OF assms, of i] by blast
  then have "dropWhile (\<lambda>c. c \<noteq> CHR ''?'') (path_query (slotUrl cfg i) @ ''?prevExist=false'')
      = dropWhile (\<lambda>c. c \<noteq> CHR ''?'') ''?prevExist=false''"
    by (rule dropWhile_append2)
  then show ?thesis
    by (simp add: query_of_def path_query_slotUrl_append)
qed

lemma path_query_redirect:
  assumes "CHR ''/'' \<notin> set host"
  shows "path_query (''http://'' @ host @ path_query url) = path_query url"
proof -
  have "\<And>c. c \<in> set host \<Longrightarrow> c \<noteq> CHR ''/''"
    using assms by blast
  then have "dropWhile (\<lambda>c. c \<noteq> CHR ''/'') (host @ path_query url)
      = dropWhile (\<lambda>c. c \<noteq> CHR ''/'') (path_query url)"
    by (rule dropWhile_append2)
  then show ?thesis
    by (simp add: path_query_def)
qed

subsection \<open>One request on a quiet network\<close>

lemma etcd_lib_simps [simp]:
  "http_Get (etcd_lib m u) url = serve m \<lparr>Method = ''GET'', URL = url, Header = [], Payload = []\<rparr>"
  "http_NewRequest (etcd_lib m u) meth url body
     = Inr \<lparr>Method = meth, URL = url, Header = [], Payload = body\<rparr>"
  "http_Do (etcd_lib m u) = serve m"
  "json_Unmarshal (etcd_lib m u) = u"
  by (simp_all add: etcd_lib_def)

lemma Header_Set_write:
  "Header_Set \<lparr>Method = ''PUT'', URL = url, Header = [], Payload = ''value='' @ mid\<rparr>
     ''Content-Type'' ''application/x-www-form-urlencoded'' = writeRequest mid url"
  by (simp add: Header_Set_def writeRequest_def)

lemma codec_okD:
  "codec_ok m u \<Longrightarrow> \<exists>j. u (m k v) = Inr j \<and> Value (Node j) = v"
  by (simp add: codec_ok_def)

lemma bare_codec_ok: "codec_ok bare_marshal bare_unmarshal"
  by (simp add: codec_ok_def bare_marshal_def bare_unmarshal_def)

lemma demo_facts:
  "plain demo" "script demo_A = []" "script demo_AB = []" "script demo_full = []"
  "script demo_blank = []" "script demo_gap = []"
  by code_simp+

lemma get_quiet:
  assumes "codec_ok m u" and "script w = []"
  shows "get (etcd_lib m u) cfg i w =
    (Inr (case map_of (store w) (slotKey cfg i) of None \<Rightarrow> [] | Some v \<Rightarrow> v),
     w\<lparr>received := received w @ [readRequest cfg i]\<rparr>)"
proof (cases "map_of (store w) (slotKey cfg i)")
  case None
  with assms(2) show ?thesis
    by (simp add: get_def serve_def answer_def reply_def slotKey_def readRequest_def
        StatusNotFound_def)
next
  case (Some v)
  from codec_okD [OF assms(1), of "slotKey cfg i" v]
  obtain j where "u (m (slotKey cfg i) v) = Inr j" "Value (Node j) = v" by blast
  with Some assms(2) show ?thesis
    by (simp add: get_def serve_def answer_def reply_def slotKey_def readRequest_def
        StatusNotFound_def StatusOK_def)
qed

lemma put_loop_etcd:
  "put_loop (etcd_lib m u) mid url r w =
     (if r > maxEtcdRedirects then
        (Inl (New (''Too much redirects ('' @ fmt_d maxEtcdRedirects
                     @ '') from ETCD while creating key '' @ url)), w)
      else
        (case serve m (writeRequest mid url) w of
           (Inl err, w') \<Rightarrow> (Inl err, w')
         | (Inr res, w') \<Rightarrow>
             if StatusCode res = StatusTemporaryRedirect then
               (case Location res of
                  Inl err \<Rightarrow> (Inl err, w')
                | Inr masterUrl \<Rightarrow> put_loop (etcd_lib m u) mid masterUrl (r + 1) w')
             else (Inr res, w')))"
  by (subst put_loop.simps) (simp add: Header_Set_def writeRequest_def)

lemma serve_quiet:
  "script w = [] \<Longrightarrow>
   serve m req w = (case answer m (store w) req of
      (res, s') \<Rightarrow> (Inr res, \<lparr>store = s', script = [], received = received w @ [req]\<rparr>))"
  by (simp add: serve_def split: prod.splits)

lemma answer_write:
  "Method req = ''PUT'' \<Longrightarrow> query_of (URL req) = ''?prevExist=false'' \<Longrightarrow>
   answer m s req = (case map_of s (key_of (URL req)) of
      None \<Rightarrow> (reply 201, s @ [(key_of (URL req), drop 6 (Payload req))])
    | Some v \<Rightarrow> (reply 412, s))"
  by (simp add: answer_def Let_def)

lemma answer_read:
  "Method req = ''GET'' \<Longrightarrow>
   answer m s req = (case map_of s (key_of (URL req)) of
      None \<Rightarrow> (reply 404, s)
    | Some v \<Rightarrow> ((reply 200)\<lparr>Body := Inr (m (key_of (URL req)) v)\<rparr>, s))"
  by (simp add: answer_def Let_def)

lemma writeRequest_simps [simp]:
  "Method (writeRequest mid url) = ''PUT''" "URL (writeRequest mid url) = url"
  "drop 6 (Payload (writeRequest mid url)) = mid"
  by (simp_all add: writeRequest_def)

lemma reply_simps [simp]:
  "StatusCode (reply c) = c"
  by (simp add: reply_def)

lemma put_quiet:
  assumes "plain cfg" and "script w = []"
  shows "put (etcd_lib m u) cfg mid i w =
    (case map_of (store w) (slotKey cfg i) of
       None \<Rightarrow> (Inr True, w\<lparr>store := store w @ [(slotKey cfg i, mid)],
                   received := received w @ [writeRequest mid (slotUrl cfg i @ ''?prevExist=false'')]\<rparr>)
     | Some v \<Rightarrow> (Inr False,
                   w\<lparr>received := received w @ [writeRequest mid (slotUrl cfg i @ ''?prevExist=false'')]\<rparr>))"
proof -
  let ?url = "slotUrl cfg i @ ''?prevExist=false''"
  have a: "answer m (store w) (writeRequest mid ?url) =
    (case map_of (store w) (slotKey cfg i) of
      None \<Rightarrow> (reply 201, store w @ [(slotKey cfg i, mid)])
    | Some v \<Rightarrow> (reply 412, store w))"
    using query_of_write [OF assms(1), of i]
    by (simp add: answer_write key_of_write split: option.splits)
  show ?thesis
    using assms(2)
    by (simp add: put_def put_loop_etcd [of _ _ _ _ 0] maxEtcdRedirects_def
        serve_quiet a StatusTemporaryRedirect_def StatusPreconditionFailed_def
        StatusCreated_def split: option.splits)
qed

subsection \<open>The scan and the claim phase on a quiet network\<close>

lemma takenD:
  "taken s cfg mid j \<Longrightarrow> \<exists>v. map_of s (slotKey cfg j) = Some v \<and> v \<noteq> mid \<and> v \<noteq> []"
  by (simp add: taken_def split: option.splits)

lemma scan_quiet:
  assumes "codec_ok m u"
  shows "script w = [] \<Longrightarrow> \<forall>j. i \<le> j \<and> j < k \<longrightarrow> taken (store w) cfg mid j \<Longrightarrow>
         i \<le> k \<Longrightarrow> k \<le> maxMachineIndex \<Longrightarrow>
         findIndex_loop (etcd_lib m u) cfg mid i w =
         findIndex_loop (etcd_lib m u) cfg mid k
           (w\<lparr>received := received w @ map (readRequest cfg) [i..k - 1]\<rparr>)"
proof (induction "nat (k - i)" arbitrary: i w)
  case 0
  then have "i = k" by simp
  then show ?case by simp
next
  case (Suc n)
  let ?w = "w\<lparr>received := received w @ [readRequest cfg i]\<rparr>"
  from Suc.hyps(2) have lt: "i < k" by simp
  with Suc.prems have "taken (store w) cfg mid i" by simp
  then obtain v where v: "map_of (store w) (slotKey cfg i) = Some v" "v \<noteq> mid" "v \<noteq> []"
    using takenD by blast
  have g: "get (etcd_lib m u) cfg i w = (Inr v, ?w)"
    using get_quiet [OF assms Suc.prems(1), of cfg i] v by simp
  have "findIndex_loop (etcd_lib m u) cfg mid i w = findIndex_loop (etcd_lib m u) cfg mid (i + 1) ?w"
    using lt Suc.prems(4) g v by (intro findIndex_loop_other) simp_all
  also have "\<dots> = findIndex_loop (etcd_lib m u) cfg mid k
      (?w\<lparr>received := received ?w @ map (readRequest cfg) [i + 1..k - 1]\<rparr>)"
    using Suc.hyps(2) Suc.prems lt by (intro Suc.hyps(1)) simp_all
  also have "?w\<lparr>received := received ?w @ map (readRequest cfg) [i + 1..k - 1]\<rparr>
      = w\<lparr>received := received w @ map (readRequest cfg) [i..k - 1]\<rparr>"
    using lt by (simp add: upto_rec1 [of i "k - 1"])
  finally show ?case .
qed

text \<open>
  C3. On a quiet network (no other writer, no fault), when the slots 1 to \<open>k - 1\<close> are
  owned by identities other than \<open>mid\<close> and slot \<open>k\<close> is absent, \<^verbatim>\<open>findIndex\<close> reads the
  slots 1 to \<open>k\<close> in increasing order, then issues one conditional create, for slot \<open>k\<close>,
  and returns \<open>k\<close>; the store gains slot \<open>k\<close> with value \<open>mid\<close>.
\<close>

theorem lowest_free_slot:
  assumes "codec_ok m u" and "plain cfg" and "mid \<noteq> []"
    and "script w = []"
    and "1 \<le> k" and "k < maxMachineIndex"
    and "\<forall>j. 1 \<le> j \<and> j < k \<longrightarrow> taken (store w) cfg mid j"
    and "map_of (store w) (slotKey cfg k) = None"
  shows "findIndex (etcd_lib m u) cfg mid w =
    (Inr k, w\<lparr>store := store w @ [(slotKey cfg k, mid)],
              received := received w @ map (readRequest cfg) [1..k]
                 @ [writeRequest mid (slotUrl cfg k @ ''?prevExist=false'')]\<rparr>)"
proof -
  let ?E = "etcd_lib m u"
  let ?w1 = "w\<lparr>received := received w @ map (readRequest cfg) [1..k - 1]\<rparr>"
  let ?w2 = "?w1\<lparr>received := received ?w1 @ [readRequest cfg k]\<rparr>"
  have "findIndex ?E cfg mid w = findIndex_loop ?E cfg mid k ?w1"
    unfolding findIndex_def using assms by (intro scan_quiet) simp_all
  also have "\<dots> = allocateIndex ?E cfg mid k ?w2"
    using assms get_quiet [OF assms(1), of ?w1 cfg k] by (intro findIndex_loop_free) simp_all
  also have "\<dots> = (Inr k, ?w2\<lparr>store := store ?w2 @ [(slotKey cfg k, mid)],
              received := received ?w2 @ [writeRequest mid (slotUrl cfg k @ ''?prevExist=false'')]\<rparr>)"
    using assms put_quiet [OF assms(2), of ?w2 m u mid k] by (intro allocateIndex_won) simp_all
  also have "?w2\<lparr>store := store ?w2 @ [(slotKey cfg k, mid)],
              received := received ?w2 @ [writeRequest mid (slotUrl cfg k @ ''?prevExist=false'')]\<rparr>
     = w\<lparr>store := store w @ [(slotKey cfg k, mid)],
              received := received w @ map (readRequest cfg) [1..k]
                 @ [writeRequest mid (slotUrl cfg k @ ''?prevExist=false'')]\<rparr>"
    using assms(5) by (simp add: upto_rec2 [of 1 k])
  finally show ?thesis .
qed

text \<open>The store holds slot 1 of another host; slot 2 is the lowest free slot.\<close>

theorem lowest_free_slot_witness:
  "taken (store demo_A) demo ''host-B'' 1 \<and>
   map_of (store demo_A) (slotKey demo 2) = None \<and>
   findIndex demo_lib demo ''host-B'' demo_A =
     (Inr 2, demo_A\<lparr>store := store demo_A @ [(slotKey demo 2, ''host-B'')],
        received := received demo_A @ map (readRequest demo) [1..2]
          @ [writeRequest ''host-B'' (slotUrl demo 2 @ ''?prevExist=false'')]\<rparr>)"
proof -
  have t: "taken (store demo_A) demo ''host-B'' 1" by code_simp
  have f: "map_of (store demo_A) (slotKey demo 2) = None" by code_simp
  have a: "\<forall>j. 1 \<le> j \<and> j < 2 \<longrightarrow> taken (store demo_A) demo ''host-B'' j"
  proof (intro allI impI)
    fix j :: int assume "1 \<le> j \<and> j < 2"
    then have "j = 1" by simp
    with t show "taken (store demo_A) demo ''host-B'' j" by simp
  qed
  from lowest_free_slot [OF bare_codec_ok demo_facts(1) _ demo_facts(2) _ _ a f]
    t f show ?thesis
    by (simp add: demo_lib_def maxMachineIndex_def)
qed

subsection \<open>Finding the own slot again\<close>

lemma rediscover:
  assumes "codec_ok m u"
    and "script w = []"
    and "1 \<le> i" and "i < maxMachineIndex"
    and "\<forall>j. 1 \<le> j \<and> j < i \<longrightarrow> taken (store w) cfg mid j"
    and "map_of (store w) (slotKey cfg i) = Some mid"
  shows "findIndex (etcd_lib m u) cfg mid w =
    (Inr i, w\<lparr>received := received w @ map (readRequest cfg) [1..i]\<rparr>)"
proof -
  let ?E = "etcd_lib m u"
  let ?w1 = "w\<lparr>received := received w @ map (readRequest cfg) [1..i - 1]\<rparr>"
  let ?w2 = "?w1\<lparr>received := received ?w1 @ [readRequest cfg i]\<rparr>"
  have "findIndex ?E cfg mid w = findIndex_loop ?E cfg mid i ?w1"
    unfolding findIndex_def using assms by (intro scan_quiet) simp_all
  also have "\<dots> = (Inr i, ?w2)"
    using assms get_quiet [OF assms(1), of ?w1 cfg i] by (intro findIndex_loop_own) simp_all
  also have "?w2 = w\<lparr>received := received w @ map (readRequest cfg) [1..i]\<rparr>"
    using assms(3) by (simp add: upto_rec2 [of 1 i])
  finally show ?thesis .
qed

text \<open>
  C2 as stated fails: it asks only that no slot below \<open>i\<close> holds \<open>mid\<close>. In a store in
  which slot 2 holds \<^verbatim>\<open>host-A\<close> and slot 1 is absent, \<^verbatim>\<open>findIndex\<close> for \<^verbatim>\<open>host-A\<close> reads
  slot 1, creates it and returns 1: the scan stops at the lowest free slot, before it
  reaches the slot the identity owns.
\<close>

theorem rediscovery_counterexample:
  "map_of (store demo_gap) (slotKey demo 2) = Some ''host-A'' \<and>
   map_of (store demo_gap) (slotKey demo 1) \<noteq> Some ''host-A'' \<and>
   fst (findIndex demo_lib demo ''host-A'' demo_gap) = Inr 1 \<and>
   store (snd (findIndex demo_lib demo ''host-A'' demo_gap))
     = store demo_gap @ [(slotKey demo 1, ''host-A'')] \<and>
   received (snd (findIndex demo_lib demo ''host-A'' demo_gap))
     = [readRequest demo 1, writeRequest ''host-A'' (slotUrl demo 1 @ ''?prevExist=false'')]"
  by code_simp

text \<open>
  C2, amended. On a quiet network, when slot \<open>i\<close> holds \<open>mid\<close> and every slot below
  \<open>i\<close> is owned by another identity, \<^verbatim>\<open>findIndex\<close> returns \<open>i\<close> after reading the slots 1
  to \<open>i\<close>: it sends no write and leaves the store as it was, and a second run returns
  \<open>i\<close> again in the same way.
\<close>

theorem rediscovery:
  assumes "codec_ok m u" and "script w = []"
    and "1 \<le> i" and "i < maxMachineIndex"
    and "\<forall>j. 1 \<le> j \<and> j < i \<longrightarrow> taken (store w) cfg mid j"
    and "map_of (store w) (slotKey cfg i) = Some mid"
  shows "findIndex (etcd_lib m u) cfg mid w =
           (Inr i, w\<lparr>received := received w @ map (readRequest cfg) [1..i]\<rparr>) \<and>
         findIndex (etcd_lib m u) cfg mid (w\<lparr>received := received w @ map (readRequest cfg) [1..i]\<rparr>) =
           (Inr i, w\<lparr>received := received w @ map (readRequest cfg) [1..i]
                       @ map (readRequest cfg) [1..i]\<rparr>)"
  using rediscover [OF assms]
    rediscover [of m u "w\<lparr>received := received w @ map (readRequest cfg) [1..i]\<rparr>" i cfg mid]
    assms
  by simp

theorem rediscovery_witness:
  "taken (store demo_AB) demo ''host-B'' 1 \<and>
   map_of (store demo_AB) (slotKey demo 2) = Some ''host-B'' \<and>
   findIndex demo_lib demo ''host-B'' demo_AB =
     (Inr 2, demo_AB\<lparr>received := received demo_AB @ map (readRequest demo) [1..2]\<rparr>) \<and>
   findIndex demo_lib demo ''host-B''
       (demo_AB\<lparr>received := received demo_AB @ map (readRequest demo) [1..2]\<rparr>) =
     (Inr 2, demo_AB\<lparr>received := received demo_AB @ map (readRequest demo) [1..2]
                       @ map (readRequest demo) [1..2]\<rparr>)"
proof -
  have t: "taken (store demo_AB) demo ''host-B'' 1" by code_simp
  have f: "map_of (store demo_AB) (slotKey demo 2) = Some ''host-B''" by code_simp
  have a: "\<forall>j. 1 \<le> j \<and> j < 2 \<longrightarrow> taken (store demo_AB) demo ''host-B'' j"
  proof (intro allI impI)
    fix j :: int assume "1 \<le> j \<and> j < 2"
    then have "j = 1" by simp
    with t show "taken (store demo_AB) demo ''host-B'' j" by simp
  qed
  from rediscovery [OF bare_codec_ok demo_facts(3) _ _ a f] t f show ?thesis
    by (simp add: demo_lib_def maxMachineIndex_def)
qed

subsection \<open>Exhaustion\<close>

lemma scan_exhausted:
  assumes "codec_ok m u"
    and "script w = []"
    and "\<forall>j. 1 \<le> j \<and> j < maxMachineIndex \<longrightarrow> taken (store w) cfg mid j"
  shows "findIndex (etcd_lib m u) cfg mid w =
    (Inl (New ''Cannot find machine index - all slots are busy, checked 100 slots''),
     w\<lparr>received := received w @ map (readRequest cfg) [1..99]\<rparr>)"
proof -
  let ?E = "etcd_lib m u"
  have "findIndex ?E cfg mid w = findIndex_loop ?E cfg mid maxMachineIndex
      (w\<lparr>received := received w @ map (readRequest cfg) [1..maxMachineIndex - 1]\<rparr>)"
    unfolding findIndex_def using assms by (intro scan_quiet) (simp_all add: maxMachineIndex_def)
  then show ?thesis
    by (simp add: findIndex_loop_full) (simp add: maxMachineIndex_def)
qed

lemma claim_exhausted:
  assumes "plain cfg"
  shows "script w = [] \<Longrightarrow>
    \<forall>j. start \<le> j \<and> j < maxMachineIndex \<longrightarrow> map_of (store w) (slotKey cfg j) \<noteq> None \<Longrightarrow>
    allocateIndex (etcd_lib m u) cfg mid start w =
    (Inl (New ''Cannot allocate machine index - all slots are busy, checked 100 slots''),
     w\<lparr>received := received w
          @ map (\<lambda>j. writeRequest mid (slotUrl cfg j @ ''?prevExist=false'')) [start..99]\<rparr>)"
proof (induction "nat (maxMachineIndex - start)" arbitrary: start w)
  case 0
  then have "\<not> start < maxMachineIndex" "[start..99] = []"
    by (simp_all add: maxMachineIndex_def)
  then show ?case by (simp add: allocateIndex_full)
next
  case (Suc n)
  let ?E = "etcd_lib m u"
  let ?w = "w\<lparr>received := received w @ [writeRequest mid (slotUrl cfg start @ ''?prevExist=false'')]\<rparr>"
  from Suc.hyps(2) have lt: "start < maxMachineIndex" by simp
  with Suc.prems obtain v where "map_of (store w) (slotKey cfg start) = Some v" by auto
  then have p: "put ?E cfg mid start w = (Inr False, ?w)"
    using put_quiet [OF assms Suc.prems(1), of m u mid start] by simp
  have "allocateIndex ?E cfg mid start w = allocateIndex ?E cfg mid (start + 1) ?w"
    using lt p by (rule allocateIndex_lost)
  also have "\<dots> = (Inl (New ''Cannot allocate machine index - all slots are busy, checked 100 slots''),
     ?w\<lparr>received := received ?w
          @ map (\<lambda>j. writeRequest mid (slotUrl cfg j @ ''?prevExist=false'')) [start + 1..99]\<rparr>)"
    using Suc.hyps(2) Suc.prems by (intro Suc.hyps(1)) simp_all
  also have "?w\<lparr>received := received ?w
          @ map (\<lambda>j. writeRequest mid (slotUrl cfg j @ ''?prevExist=false'')) [start + 1..99]\<rparr>
     = w\<lparr>received := received w
          @ map (\<lambda>j. writeRequest mid (slotUrl cfg j @ ''?prevExist=false'')) [start..99]\<rparr>"
    using lt by (simp add: upto_rec1 [of start 99] maxMachineIndex_def)
  finally show ?case .
qed

lemma map_of_map_const:
  "j \<in> set js \<Longrightarrow> map_of (map (\<lambda>j. (f j, v)) js) (f j) = Some v"
  by (induction js) auto

text \<open>
  C7. On a quiet network, when every slot from 1 to 99 is owned by an identity other
  than \<open>mid\<close>, \<^verbatim>\<open>findIndex\<close> reads them all, writes nothing and returns the error
  \<^verbatim>\<open>Cannot find machine index\<close>; when every slot from \<open>start\<close> to 99 exists,
  \<^verbatim>\<open>allocateIndex\<close> returns the error \<^verbatim>\<open>Cannot allocate machine index\<close>. Both messages
  name \<^verbatim>\<open>maxMachineIndex\<close>, the bound of the loops, which is 100, and both differ from
  every error of the library and from the two errors \<^verbatim>\<open>get\<close> and \<^verbatim>\<open>put\<close> make.
\<close>

theorem capacity_exhaustion:
  "(codec_ok m u \<and> script w = [] \<and>
    (\<forall>j. 1 \<le> j \<and> j < maxMachineIndex \<longrightarrow> taken (store w) cfg mid j) \<longrightarrow>
      findIndex (etcd_lib m u) cfg mid w =
        (Inl (New (''Cannot find machine index - all slots are busy, checked ''
                     @ fmt_d maxMachineIndex @ '' slots'')),
         w\<lparr>received := received w @ map (readRequest cfg) [1..99]\<rparr>)) \<and>
   (plain cfg \<and> script w = [] \<and>
    (\<forall>j. start \<le> j \<and> j < maxMachineIndex \<longrightarrow> map_of (store w) (slotKey cfg j) \<noteq> None) \<longrightarrow>
      fst (allocateIndex (etcd_lib m u) cfg mid start w) =
        Inl (New (''Cannot allocate machine index - all slots are busy, checked ''
                    @ fmt_d maxMachineIndex @ '' slots''))) \<and>
   fmt_d maxMachineIndex = ''100'' \<and>
   New (''Cannot find machine index - all slots are busy, checked ''
          @ fmt_d maxMachineIndex @ '' slots'')
     \<notin> {External e, unknownReply lib res,
         New (''Too much redirects ('' @ fmt_d maxEtcdRedirects
                @ '') from ETCD while creating key '' @ url)} \<and>
   New (''Cannot allocate machine index - all slots are busy, checked ''
          @ fmt_d maxMachineIndex @ '' slots'')
     \<notin> {External e, unknownReply lib res,
         New (''Too much redirects ('' @ fmt_d maxEtcdRedirects
                @ '') from ETCD while creating key '' @ url)}"
proof (intro conjI impI)
  assume "codec_ok m u \<and> script w = [] \<and>
    (\<forall>j. 1 \<le> j \<and> j < maxMachineIndex \<longrightarrow> taken (store w) cfg mid j)"
  then show "findIndex (etcd_lib m u) cfg mid w =
        (Inl (New (''Cannot find machine index - all slots are busy, checked ''
                     @ fmt_d maxMachineIndex @ '' slots'')),
         w\<lparr>received := received w @ map (readRequest cfg) [1..99]\<rparr>)"
    using scan_exhausted [of m u w cfg mid] by (simp add: maxMachineIndex_def fmt_d_100)
next
  assume "plain cfg \<and> script w = [] \<and>
    (\<forall>j. start \<le> j \<and> j < maxMachineIndex \<longrightarrow> map_of (store w) (slotKey cfg j) \<noteq> None)"
  then show "fst (allocateIndex (etcd_lib m u) cfg mid start w) =
        Inl (New (''Cannot allocate machine index - all slots are busy, checked ''
                    @ fmt_d maxMachineIndex @ '' slots''))"
    using claim_exhausted [of cfg w start m u mid] by (simp add: maxMachineIndex_def fmt_d_100)
qed (simp_all add: maxMachineIndex_def fmt_d_100 unknownReply_def)

lemma demo_full_taken:
  assumes "1 \<le> j" and "j < maxMachineIndex"
  shows "map_of (store demo_full) (slotKey demo j) = Some ''host-Z''"
proof -
  from assms have "j \<in> set [1..99]" by (simp add: maxMachineIndex_def)
  then show ?thesis
    unfolding demo_full_def quiet_def by (simp add: map_of_map_const [where f = "slotKey demo"])
qed

theorem capacity_exhaustion_witness:
  "findIndex demo_lib demo ''host-A'' demo_full =
     (Inl (New ''Cannot find machine index - all slots are busy, checked 100 slots''),
      demo_full\<lparr>received := received demo_full @ map (readRequest demo) [1..99]\<rparr>) \<and>
   fst (allocateIndex demo_lib demo ''host-A'' 98 demo_full) =
     Inl (New ''Cannot allocate machine index - all slots are busy, checked 100 slots'')"
proof -
  have a: "\<forall>j. 1 \<le> j \<and> j < maxMachineIndex \<longrightarrow> taken (store demo_full) demo ''host-A'' j"
    using demo_full_taken by (simp add: taken_def)
  have b: "\<forall>j. 98 \<le> j \<and> j < maxMachineIndex \<longrightarrow> map_of (store demo_full) (slotKey demo j) \<noteq> None"
    using demo_full_taken by simp
  from capacity_exhaustion [where m = bare_marshal and u = bare_unmarshal and w = demo_full
      and cfg = demo and mid = "''host-A''" and start = 98 and e = "[]" and lib = demo_lib
      and res = "reply 500" and url = "[]"]
    bare_codec_ok demo_facts(1,4) a b
  show ?thesis by (simp add: demo_lib_def fmt_d_100)
qed

subsection \<open>The empty value\<close>

lemma map_of_filter_key:
  "map_of (filter (\<lambda>kv. fst kv \<noteq> k) s) k' = (if k' = k then None else map_of s k')"
  by (induction s) auto

lemma hand_off:
  assumes "codec_ok m u" and "mid \<noteq> []"
    and "script w = []"
    and "1 \<le> i" and "i < maxMachineIndex"
    and "\<forall>j. 1 \<le> j \<and> j < i \<longrightarrow> taken (store w) cfg mid j"
    and "map_of (store w) (slotKey cfg i) = None \<or> map_of (store w) (slotKey cfg i) = Some []"
  shows "findIndex (etcd_lib m u) cfg mid w =
    allocateIndex (etcd_lib m u) cfg mid i
      (w\<lparr>received := received w @ map (readRequest cfg) [1..i]\<rparr>)"
proof -
  let ?E = "etcd_lib m u"
  let ?w1 = "w\<lparr>received := received w @ map (readRequest cfg) [1..i - 1]\<rparr>"
  let ?w2 = "?w1\<lparr>received := received ?w1 @ [readRequest cfg i]\<rparr>"
  have "findIndex ?E cfg mid w = findIndex_loop ?E cfg mid i ?w1"
    unfolding findIndex_def using assms by (intro scan_quiet) simp_all
  also have "\<dots> = allocateIndex ?E cfg mid i ?w2"
    using assms get_quiet [OF assms(1), of ?w1 cfg i] by (intro findIndex_loop_free) auto
  also have "?w2 = w\<lparr>received := received w @ map (readRequest cfg) [1..i]\<rparr>"
    using assms(4) by (simp add: upto_rec2 [of 1 i])
  finally show ?thesis .
qed

text \<open>
  C10. \<^verbatim>\<open>get\<close> returns the empty string for a slot that exists with the empty value, as
  it does for the same store without that slot. When the scan of an identity reaches
  such a slot \<open>i\<close> (the slots below owned by others), \<^verbatim>\<open>findIndex\<close> continues as
  \<^verbatim>\<open>allocateIndex\<close> from \<open>i\<close>, in the store with the empty slot and in the store
  without it.
\<close>

theorem empty_value_reads_as_absent:
  assumes "codec_ok m u" and "mid \<noteq> []"
    and "script w = []"
    and "1 \<le> i" and "i < maxMachineIndex"
    and "\<forall>j. 1 \<le> j \<and> j < i \<longrightarrow> taken (store w) cfg mid j"
    and "map_of (store w) (slotKey cfg i) = Some []"
    and "w0 = w\<lparr>store := filter (\<lambda>kv. fst kv \<noteq> slotKey cfg i) (store w)\<rparr>"
  shows "map_of (store w0) (slotKey cfg i) = None \<and>
         fst (get (etcd_lib m u) cfg i w) = Inr [] \<and>
         fst (get (etcd_lib m u) cfg i w0) = Inr [] \<and>
         findIndex (etcd_lib m u) cfg mid w =
           allocateIndex (etcd_lib m u) cfg mid i
             (w\<lparr>received := received w @ map (readRequest cfg) [1..i]\<rparr>) \<and>
         findIndex (etcd_lib m u) cfg mid w0 =
           allocateIndex (etcd_lib m u) cfg mid i
             (w0\<lparr>received := received w0 @ map (readRequest cfg) [1..i]\<rparr>)"
proof -
  have none: "map_of (store w0) (slotKey cfg i) = None"
    using assms(8) by (simp add: map_of_filter_key)
  have t0: "\<forall>j. 1 \<le> j \<and> j < i \<longrightarrow> taken (store w0) cfg mid j"
  proof (intro allI impI)
    fix j assume j: "1 \<le> j \<and> j < i"
    with assms(6) obtain v where v: "map_of (store w) (slotKey cfg j) = Some v" "v \<noteq> mid" "v \<noteq> []"
      using takenD by blast
    with assms(7) have "slotKey cfg j \<noteq> slotKey cfg i" by auto
    with v assms(8) show "taken (store w0) cfg mid j"
      by (simp add: taken_def map_of_filter_key)
  qed
  have s0: "script w0 = []" using assms(3,8) by simp
  from get_quiet [OF assms(1,3), of cfg i] assms(7)
  have g: "fst (get (etcd_lib m u) cfg i w) = Inr []" by simp
  from get_quiet [OF assms(1) s0, of cfg i] none
  have g0: "fst (get (etcd_lib m u) cfg i w0) = Inr []" by simp
  from hand_off [OF assms(1,2,3,4,5,6)] assms(7)
  have h: "findIndex (etcd_lib m u) cfg mid w =
           allocateIndex (etcd_lib m u) cfg mid i
             (w\<lparr>received := received w @ map (readRequest cfg) [1..i]\<rparr>)" by simp
  from hand_off [OF assms(1,2) s0 assms(4,5) t0] none
  have h0: "findIndex (etcd_lib m u) cfg mid w0 =
           allocateIndex (etcd_lib m u) cfg mid i
             (w0\<lparr>received := received w0 @ map (readRequest cfg) [1..i]\<rparr>)" by simp
  from none g g0 h h0 show ?thesis by simp
qed

text \<open>
  Slot 1 is owned by another host and slot 2 holds the empty value. The scan hands over
  at 2 as it does when slot 2 is absent. The claim phase then differs: the create
  for the existing slot 2 fails and slot 3 is taken, where the absent slot 2 is taken.
\<close>

theorem empty_value_reads_as_absent_witness:
  "taken (store demo_blank) demo ''host-B'' 1 \<and>
   map_of (store demo_blank) (slotKey demo 2) = Some [] \<and>
   fst (get demo_lib demo 2 demo_blank) = Inr [] \<and>
   fst (get demo_lib demo 2 demo_A) = Inr [] \<and>
   findIndex demo_lib demo ''host-B'' demo_blank =
     allocateIndex demo_lib demo ''host-B'' 2
       (demo_blank\<lparr>received := received demo_blank @ map (readRequest demo) [1..2]\<rparr>) \<and>
   fst (findIndex demo_lib demo ''host-B'' demo_blank) = Inr 3 \<and>
   fst (findIndex demo_lib demo ''host-B'' demo_A) = Inr 2"
proof -
  have r: "fst (findIndex demo_lib demo ''host-B'' demo_blank) = Inr 3"
    "fst (findIndex demo_lib demo ''host-B'' demo_A) = Inr 2"
    by code_simp+
  have t: "taken (store demo_blank) demo ''host-B'' 1" by code_simp
  have f: "map_of (store demo_blank) (slotKey demo 2) = Some []" by code_simp
  have a: "\<forall>j. 1 \<le> j \<and> j < 2 \<longrightarrow> taken (store demo_blank) demo ''host-B'' j"
  proof (intro allI impI)
    fix j :: int assume "1 \<le> j \<and> j < 2"
    then have "j = 1" by simp
    with t show "taken (store demo_blank) demo ''host-B'' j" by simp
  qed
  have g: "fst (get demo_lib demo 2 demo_A) = Inr []" by code_simp
  from empty_value_reads_as_absent [OF bare_codec_ok _ demo_facts(5) _ _ a f refl] t f g r
  show ?thesis
    by (simp add: demo_lib_def maxMachineIndex_def)
qed

subsection \<open>Requests under rival writers, outages and redirects\<close>

lemma serve_received: "received (snd (serve m req w)) = received w @ [req]"
  by (simp add: serve_def split: prod.splits)

lemma handle_script:
  "handle m req s evs = (r, s', evs') \<Longrightarrow> list_all plain_host evs \<Longrightarrow> list_all plain_host evs'"
  by (induction m req s evs rule: handle.induct) (auto split: prod.splits)

lemma handle_read_ok:
  "handle m req s evs = (Inr res, s', evs') \<Longrightarrow> Method req = ''GET'' \<Longrightarrow> StatusCode res = 200 \<Longrightarrow>
   \<exists>v. map_of s' (key_of (URL req)) = Some v \<and> Body res = Inr (m (key_of (URL req)) v)"
  by (induction m req s evs rule: handle.induct)
     (auto simp: answer_read reply_def split: prod.splits option.splits)

lemma handle_write_created:
  "handle m req s evs = (Inr res, s', evs') \<Longrightarrow> Method req = ''PUT'' \<Longrightarrow> StatusCode res = 201 \<Longrightarrow>
   map_of s' (key_of (URL req)) = Some (drop 6 (Payload req))"
  by (induction m req s evs rule: handle.induct)
     (auto simp: answer_def Let_def overwrite_def reply_def map_add_def
        split: prod.splits option.splits if_splits)

lemma handle_redirect:
  "handle m req s evs = (Inr res, s', evs') \<Longrightarrow> StatusCode res = 307 \<Longrightarrow> list_all plain_host evs \<Longrightarrow>
   \<exists>host. CHR ''/'' \<notin> set host \<and> Location res = Inr (''http://'' @ host @ path_query (URL req))"
  by (induction m req s evs rule: handle.induct)
     (auto simp: answer_def Let_def reply_def split: prod.splits option.splits if_splits)

lemma create_mono: "map_of s \<subseteq>\<^sub>m map_of (create s k v)"
  by (auto simp: create_def map_le_def map_add_def dom_def split: option.splits)

lemma handle_mono:
  "handle m req s evs = (r, s', evs') \<Longrightarrow>
   Method req = ''GET'' \<or> Method req = ''PUT'' \<and> query_of (URL req) = ''?prevExist=false'' \<Longrightarrow>
   map_of s \<subseteq>\<^sub>m map_of s'"
proof (induction m req s evs arbitrary: r s' evs' rule: handle.induct)
  case (1 marshal req s k v evs)
  then have "map_of (create s k v) \<subseteq>\<^sub>m map_of s'" by simp
  with create_mono [of s k v] show ?case by (rule map_le_trans)
next
  case (4 marshal req s evs)
  then show ?case
    by (auto simp: answer_read answer_write map_le_def map_add_def dom_def split: option.splits)
next
  case (5 marshal req s)
  then show ?case
    by (auto simp: answer_read answer_write map_le_def map_add_def dom_def split: option.splits)
qed auto

lemma serveD:
  "serve m req w = (r, w') \<Longrightarrow>
   handle m req (store w) (script w) = (r, store w', script w') \<and>
   received w' = received w @ [req]"
  by (auto simp: serve_def split: prod.splits)

lemma get_serve:
  "get (etcd_lib m u) cfg i w = (r, w') \<Longrightarrow> \<exists>r0. serve m (readRequest cfg i) w = (r0, w')"
  by (auto simp: get_def readRequest_def split: prod.splits sum.splits if_splits)

lemma get_owner:
  assumes "codec_ok m u" and "get (etcd_lib m u) cfg i w = (Inr v, w')" and "v \<noteq> []"
  shows "map_of (store w') (slotKey cfg i) = Some v"
proof -
  obtain r0 where s: "serve m (readRequest cfg i) w = (r0, w')"
    using get_serve [OF assms(2)] by blast
  with assms(2,3) obtain res where r0: "r0 = Inr res" and st: "StatusCode res = 200"
    by (cases r0) (auto simp: get_def readRequest_def StatusNotFound_def StatusOK_def
        split: if_splits)
  from serveD [OF s] r0
  have "handle m (readRequest cfg i) (store w) (script w) = (Inr res, store w', script w')"
    by simp
  from handle_read_ok [OF this _ st]
  obtain v0 where v0: "map_of (store w') (slotKey cfg i) = Some v0"
      "Body res = Inr (m (slotKey cfg i) v0)"
    by (auto simp: readRequest_def slotKey_def)
  from codec_okD [OF assms(1), of "slotKey cfg i" v0]
  obtain j where "u (m (slotKey cfg i) v0) = Inr j" "Value (Node j) = v0" by blast
  with assms(2) s r0 st v0 have "v = v0"
    by (simp add: get_def readRequest_def StatusNotFound_def StatusOK_def)
  with v0 show ?thesis by simp
qed

lemma get_script:
  "get (etcd_lib m u) cfg i w = (r, w') \<Longrightarrow> list_all plain_host (script w) \<Longrightarrow>
   list_all plain_host (script w')"
  using get_serve serveD handle_script by blast

lemma get_mono:
  "get (etcd_lib m u) cfg i w = (r, w') \<Longrightarrow> map_of (store w) \<subseteq>\<^sub>m map_of (store w')"
proof -
  assume "get (etcd_lib m u) cfg i w = (r, w')"
  then obtain r0 where "serve m (readRequest cfg i) w = (r0, w')"
    using get_serve by blast
  from serveD [OF this] show ?thesis
    by (intro handle_mono [where req = "readRequest cfg i"]) (auto simp: readRequest_def)
qed

lemma put_loop_invariant:
  assumes "list_all plain_host (script w)"
    and "put_loop (etcd_lib m u) mid url r w = (res, w')"
  shows "list_all plain_host (script w') \<and>
         (\<forall>a. res = Inr a \<and> StatusCode a = 201 \<longrightarrow> map_of (store w') (key_of url) = Some mid) \<and>
         (query_of url = ''?prevExist=false'' \<longrightarrow> map_of (store w) \<subseteq>\<^sub>m map_of (store w'))"
  using assms
proof (induction "nat (maxEtcdRedirects + 1 - r)" arbitrary: url r w)
  case 0
  then have "r > maxEtcdRedirects" by simp
  with "0.prems" show ?case by (auto simp: put_loop_etcd [of m u mid url r w])
next
  case (Suc n)
  then have le: "\<not> r > maxEtcdRedirects" by simp
  obtain r1 w1 where s: "serve m (writeRequest mid url) w = (r1, w1)"
    by (cases "serve m (writeRequest mid url) w")
  note h = serveD [OF s]
  from h Suc.prems(1) have pl: "list_all plain_host (script w1)"
    using handle_script by blast
  have mono: "map_of (store w) \<subseteq>\<^sub>m map_of (store w1)" if "query_of url = ''?prevExist=false''"
    using h that by (intro handle_mono [where req = "writeRequest mid url"]) auto
  show ?case
  proof (cases r1)
    case (Inl e)
    with Suc.prems(2) le s pl mono show ?thesis
      by (auto simp: put_loop_etcd [of m u mid url r w])
  next
    case (Inr a)
    show ?thesis
    proof (cases "StatusCode a = StatusTemporaryRedirect")
      case False
      with Inr Suc.prems(2) le s have "res = Inr a" "w' = w1"
        by (auto simp: put_loop_etcd [of m u mid url r w])
      moreover have "map_of (store w1) (key_of url) = Some mid" if "StatusCode a = 201"
        using handle_write_created [of m "writeRequest mid url" "store w" "script w" a
            "store w1" "script w1"] h Inr that by simp
      ultimately show ?thesis using pl mono by auto
    next
      case True
      then have "StatusCode a = 307" by (simp add: StatusTemporaryRedirect_def)
      from h Inr
      have "handle m (writeRequest mid url) (store w) (script w) = (Inr a, store w1, script w1)"
        by simp
      from handle_redirect [OF this \<open>StatusCode a = 307\<close> Suc.prems(1)]
      obtain host where host: "CHR ''/'' \<notin> set host"
          "Location a = Inr (''http://'' @ host @ path_query url)"
        by auto
      let ?url = "''http://'' @ host @ path_query url"
      from Inr True host Suc.prems(2) le s
      have rec: "put_loop (etcd_lib m u) mid ?url (r + 1) w1 = (res, w')"
        by (simp add: put_loop_etcd [of m u mid url r w])
      have "n = nat (maxEtcdRedirects + 1 - (r + 1))" using Suc.hyps(2) by simp
      from Suc.hyps(1) [OF this pl rec]
      have ih: "list_all plain_host (script w')"
        "\<forall>a. res = Inr a \<and> StatusCode a = 201 \<longrightarrow> map_of (store w') (key_of ?url) = Some mid"
        "query_of ?url = ''?prevExist=false'' \<longrightarrow> map_of (store w1) \<subseteq>\<^sub>m map_of (store w')"
        by simp_all
      have same: "key_of ?url = key_of url" "query_of ?url = query_of url"
        using path_query_redirect [OF host(1), of url] by (simp_all add: key_of_def query_of_def)
      from ih same mono show ?thesis
        by (auto intro: map_le_trans)
    qed
  qed
qed

lemma put_invariant:
  assumes "list_all plain_host (script w)"
    and "put (etcd_lib m u) cfg mid i w = (r, w')"
  shows "list_all plain_host (script w') \<and>
         (r = Inr True \<longrightarrow> map_of (store w') (slotKey cfg i) = Some mid) \<and>
         (plain cfg \<longrightarrow> map_of (store w) \<subseteq>\<^sub>m map_of (store w'))"
proof -
  let ?url = "slotUrl cfg i @ ''?prevExist=false''"
  obtain res where l: "put_loop (etcd_lib m u) mid ?url 0 w = (res, w')"
    using assms(2) by (cases "put_loop (etcd_lib m u) mid ?url 0 w")
      (auto simp: put_def split: sum.splits if_splits)
  note inv = put_loop_invariant [OF assms(1) l]
  have "map_of (store w') (slotKey cfg i) = Some mid" if "r = Inr True"
  proof -
    from that assms(2) l obtain a where "res = Inr a" "StatusCode a = 201"
      by (cases res) (auto simp: put_def StatusCreated_def split: if_splits)
    with inv show ?thesis by (simp add: key_of_write)
  qed
  with inv show ?thesis by (auto simp: query_of_write)
qed

subsection \<open>Ownership of the returned index\<close>

lemma allocateIndex_invariant:
  assumes "list_all plain_host (script w)"
    and "allocateIndex (etcd_lib m u) cfg mid i w = (r, w')"
  shows "list_all plain_host (script w') \<and>
         (\<forall>n. r = Inr n \<longrightarrow> map_of (store w') (slotKey cfg n) = Some mid) \<and>
         (plain cfg \<longrightarrow> map_of (store w) \<subseteq>\<^sub>m map_of (store w'))"
  using assms
proof (induction "nat (maxMachineIndex - i)" arbitrary: i w)
  case 0
  then have "\<not> i < maxMachineIndex" by simp
  with "0.prems" show ?case by (auto simp: allocateIndex_full)
next
  case (Suc k)
  then have lt: "i < maxMachineIndex" by simp
  obtain r1 w1 where p: "put (etcd_lib m u) cfg mid i w = (r1, w1)"
    by (cases "put (etcd_lib m u) cfg mid i w")
  note inv = put_invariant [OF Suc.prems(1) p]
  show ?case
  proof (cases r1)
    case (Inl e)
    with p have "put (etcd_lib m u) cfg mid i w = (Inl e, w1)" by simp
    from allocateIndex_put_error [OF lt this] Suc.prems(2) have "r = Inl e" "w' = w1"
      by simp_all
    with inv show ?thesis by simp
  next
    case (Inr ok)
    show ?thesis
    proof (cases ok)
      case True
      with Inr p have "put (etcd_lib m u) cfg mid i w = (Inr True, w1)" by simp
      from allocateIndex_won [OF lt this] Suc.prems(2) have "r = Inr i" "w' = w1"
        by simp_all
      with inv Inr True show ?thesis by simp
    next
      case False
      with Inr p have "put (etcd_lib m u) cfg mid i w = (Inr False, w1)" by simp
      from allocateIndex_lost [OF lt this] Suc.prems(2)
      have rec: "allocateIndex (etcd_lib m u) cfg mid (i + 1) w1 = (r, w')" by simp
      have "k = nat (maxMachineIndex - (i + 1))" using Suc.hyps(2) by simp
      from Suc.hyps(1) [OF this _ rec] inv show ?thesis
        by (auto intro: map_le_trans)
    qed
  qed
qed

lemma findIndex_loop_invariant:
  assumes "codec_ok m u" and "mid \<noteq> []"
    and "list_all plain_host (script w)"
    and "findIndex_loop (etcd_lib m u) cfg mid i w = (r, w')"
  shows "(\<forall>n. r = Inr n \<longrightarrow> map_of (store w') (slotKey cfg n) = Some mid) \<and>
         (plain cfg \<longrightarrow> map_of (store w) \<subseteq>\<^sub>m map_of (store w'))"
  using assms(3,4)
proof (induction "nat (maxMachineIndex - i)" arbitrary: i w)
  case 0
  then have "\<not> i < maxMachineIndex" by simp
  with "0.prems" show ?case by (auto simp: findIndex_loop_full)
next
  case (Suc k)
  then have lt: "i < maxMachineIndex" by simp
  obtain r1 w1 where g: "get (etcd_lib m u) cfg i w = (r1, w1)"
    by (cases "get (etcd_lib m u) cfg i w")
  note pl = get_script [OF g Suc.prems(1)]
  note mono = get_mono [OF g]
  show ?case
  proof (cases r1)
    case (Inl e)
    with g have "get (etcd_lib m u) cfg i w = (Inl e, w1)" by simp
    from findIndex_loop_get_error [OF lt this] Suc.prems(2) have "r = Inl e" "w' = w1"
      by simp_all
    with mono show ?thesis by simp
  next
    case (Inr v)
    consider "v = mid" | "v \<noteq> mid" "v = []" | "v \<noteq> mid" "v \<noteq> []" by blast
    then show ?thesis
    proof cases
      case 1
      with Inr g have g': "get (etcd_lib m u) cfg i w = (Inr mid, w1)" by simp
      from findIndex_loop_own [OF lt g'] Suc.prems(2) have "r = Inr i" "w' = w1" by simp_all
      with get_owner [OF assms(1) g' assms(2)] mono show ?thesis by simp
    next
      case 2
      with Inr g have "get (etcd_lib m u) cfg i w = (Inr [], w1)" by simp
      from findIndex_loop_free [OF lt this assms(2)] Suc.prems(2)
      have "allocateIndex (etcd_lib m u) cfg mid i w1 = (r, w')" by simp
      from allocateIndex_invariant [OF pl this] mono show ?thesis
        by (auto intro: map_le_trans)
    next
      case 3
      with Inr g have "get (etcd_lib m u) cfg i w = (Inr v, w1)" by simp
      from findIndex_loop_other [OF lt this 3] Suc.prems(2)
      have rec: "findIndex_loop (etcd_lib m u) cfg mid (i + 1) w1 = (r, w')" by simp
      have "k = nat (maxMachineIndex - (i + 1))" using Suc.hyps(2) by simp
      from Suc.hyps(1) [OF this pl rec] mono show ?thesis
        by (auto intro: map_le_trans)
    qed
  qed
qed

lemma allocation_in_sequence:
  assumes "codec_ok m u" and "plain cfg"
    and "midA \<noteq> []" and "midB \<noteq> []" and "midA \<noteq> midB"
    and "list_all plain_host (script wA)" and "list_all plain_host (script wB)"
    and "findIndex (etcd_lib m u) cfg midA wA = (Inr iA, wA')"
    and "store wB = store wA'"
    and "findIndex (etcd_lib m u) cfg midB wB = (Inr iB, wB')"
  shows "iA \<noteq> iB"
proof -
  from findIndex_loop_invariant [OF assms(1,3,6) assms(8) [unfolded findIndex_def]]
  have a: "map_of (store wB) (slotKey cfg iA) = Some midA"
    using assms(9) by simp
  from findIndex_loop_invariant [OF assms(1,4,7) assms(10) [unfolded findIndex_def]] assms(2)
  have b: "map_of (store wB') (slotKey cfg iB) = Some midB"
    "map_of (store wB) \<subseteq>\<^sub>m map_of (store wB')"
    by simp_all
  from a b(2) have "map_of (store wB') (slotKey cfg iA) = Some midA"
    by (auto simp: map_le_def dom_def)
  with b(1) assms(5) show ?thesis by auto
qed

text \<open>
  C1. Two distinct identities that each complete \<^verbatim>\<open>findIndex\<close> against the same store get
  different indices. The runs may be one after the other or interleaved: each run sees
  the writes of other machines as \<open>Rival\<close> events of its script, and \<open>later\<close> is any
  state of the store that extends the state at the end of each run, which exists since
  keys are only ever created. At the end of its run each identity is the value of the
  slot it was given; and with flags that hold no question mark every write of a run is
  a conditional create, so that the run only adds keys to the store it started from.
\<close>

theorem allocation_unique:
  assumes "codec_ok m u"
    and "midA \<noteq> []" and "midB \<noteq> []" and "midA \<noteq> midB"
    and "list_all plain_host (script wA)" and "list_all plain_host (script wB)"
    and "findIndex (etcd_lib m u) cfg midA wA = (Inr iA, wA')"
    and "findIndex (etcd_lib m u) cfg midB wB = (Inr iB, wB')"
    and "map_of (store wA') \<subseteq>\<^sub>m later" and "map_of (store wB') \<subseteq>\<^sub>m later"
  shows "iA \<noteq> iB \<and>
         later (slotKey cfg iA) = Some midA \<and> later (slotKey cfg iB) = Some midB \<and>
         (plain cfg \<longrightarrow> map_of (store wA) \<subseteq>\<^sub>m map_of (store wA') \<and>
                       map_of (store wB) \<subseteq>\<^sub>m map_of (store wB'))"
proof -
  from findIndex_loop_invariant [OF assms(1,2,5) assms(7) [unfolded findIndex_def]]
  have a: "map_of (store wA') (slotKey cfg iA) = Some midA"
      "plain cfg \<longrightarrow> map_of (store wA) \<subseteq>\<^sub>m map_of (store wA')"
    by simp_all
  from findIndex_loop_invariant [OF assms(1,3,6) assms(8) [unfolded findIndex_def]]
  have b: "map_of (store wB') (slotKey cfg iB) = Some midB"
      "plain cfg \<longrightarrow> map_of (store wB) \<subseteq>\<^sub>m map_of (store wB')"
    by simp_all
  from a(1) assms(9) have la: "later (slotKey cfg iA) = Some midA"
    by (auto simp: map_le_def dom_def)
  from b(1) assms(10) have lb: "later (slotKey cfg iB) = Some midB"
    by (auto simp: map_le_def dom_def)
  from la lb assms(4) have "iA \<noteq> iB" by auto
  with la lb a(2) b(2) show ?thesis by simp
qed

theorem allocation_unique_witness:
  "findIndex demo_lib demo ''host-A'' demo_race
     = (Inr 2, snd (findIndex demo_lib demo ''host-A'' demo_race)) \<and>
   findIndex demo_lib demo ''host-B'' (quiet []) = (Inr 1, demo_B) \<and>
   (2::int) \<noteq> 1 \<and>
   map_of (store (snd (findIndex demo_lib demo ''host-A'' demo_race))) (slotKey demo 2)
     = Some ''host-A'' \<and>
   map_of (store (snd (findIndex demo_lib demo ''host-A'' demo_race))) (slotKey demo 1)
     = Some ''host-B''"
proof -
  let ?wA = "snd (findIndex demo_lib demo ''host-A'' demo_race)"
  have a: "findIndex demo_lib demo ''host-A'' demo_race = (Inr 2, ?wA)"
    by code_simp
  have b: "findIndex demo_lib demo ''host-B'' (quiet []) = (Inr 1, demo_B)"
    by code_simp
  have s: "store ?wA = [(slotKey demo 1, ''host-B''), (slotKey demo 2, ''host-A'')]"
      "store demo_B = [(slotKey demo 1, ''host-B'')]"
    by code_simp+
  have le: "map_of (store demo_B) \<subseteq>\<^sub>m map_of (store ?wA)"
    unfolding s by (simp add: map_le_def)
  have p: "list_all plain_host (script demo_race)" "list_all plain_host (script (quiet []))"
    by code_simp+
  from allocation_unique [of bare_marshal bare_unmarshal "''host-A''" "''host-B''"
      demo_race "quiet []" demo 2 ?wA 1 demo_B "map_of (store ?wA)"]
    bare_codec_ok p a b le
  show ?thesis by (simp add: demo_lib_def)
qed

subsection \<open>Redirects\<close>

lemma fmt_d_10: "fmt_d 10 = ''10''"
  by code_simp

lemma targets_not_Nil [simp]: "targets url hosts \<noteq> []"
  by (cases hosts) simp_all

lemma serve_redirect:
  "script w = Redirect host # evs \<Longrightarrow>
   serve m req w =
     (Inr ((reply 307)\<lparr>Location := Inr (''http://'' @ host @ path_query (URL req))\<rparr>),
      w\<lparr>script := evs, received := received w @ [req]\<rparr>)"
  by (cases w) (simp add: serve_def)

lemma put_loop_followed:
  "script w = map Redirect hosts @ rest \<Longrightarrow> r + int (length hosts) \<le> maxEtcdRedirects + 1 \<Longrightarrow>
   put_loop (etcd_lib m u) mid url r w =
   put_loop (etcd_lib m u) mid (last (targets url hosts)) (r + int (length hosts))
     (w\<lparr>script := rest,
        received := received w @ map (writeRequest mid) (butlast (targets url hosts))\<rparr>)"
proof (induction hosts arbitrary: url r w)
  case Nil
  then have "w\<lparr>script := rest, received := received w @ []\<rparr> = w" by (cases w) simp
  then show ?case by simp
next
  case (Cons host hosts)
  let ?url = "''http://'' @ host @ path_query url"
  let ?w = "w\<lparr>script := map Redirect hosts @ rest,
             received := received w @ [writeRequest mid url]\<rparr>"
  from Cons.prems have le: "\<not> r > maxEtcdRedirects" by simp
  from Cons.prems(1) have "script w = Redirect host # map Redirect hosts @ rest" by simp
  from serve_redirect [OF this, of m "writeRequest mid url"] le
  have "put_loop (etcd_lib m u) mid url r w = put_loop (etcd_lib m u) mid ?url (r + 1) ?w"
    by (simp add: put_loop_etcd [of m u mid url r w] StatusTemporaryRedirect_def reply_def)
  also have "\<dots> = put_loop (etcd_lib m u) mid (last (targets ?url hosts))
      (r + 1 + int (length hosts))
      (?w\<lparr>script := rest,
          received := received ?w @ map (writeRequest mid) (butlast (targets ?url hosts))\<rparr>)"
    using Cons.prems(2) by (intro Cons.IH) simp_all
  finally show ?case by (simp add: add.assoc)
qed

lemma put_loop_too_many:
  "r > maxEtcdRedirects \<Longrightarrow>
   put_loop lib mid url r w =
     (Inl (New (''Too much redirects (10) from ETCD while creating key '' @ url)), w)"
  by (simp add: put_loop.simps [of lib mid url r w] maxEtcdRedirects_def fmt_d_10)

lemma put_loop_count:
  "length (received (snd (put_loop (etcd_lib m u) mid url r w)))
     \<le> length (received w) + nat (maxEtcdRedirects + 1 - r)"
proof (induction "nat (maxEtcdRedirects + 1 - r)" arbitrary: url r w)
  case 0
  then have "r > maxEtcdRedirects" by simp
  then show ?case by (simp add: put_loop_too_many)
next
  case (Suc n)
  then have le: "\<not> r > maxEtcdRedirects" by simp
  obtain r1 w1 where s: "serve m (writeRequest mid url) w = (r1, w1)"
    by (cases "serve m (writeRequest mid url) w")
  from serve_received [of m "writeRequest mid url" w] s
  have len: "length (received w1) = length (received w) + 1" by simp
  have n: "n = nat (maxEtcdRedirects + 1 - (r + 1))" using Suc.hyps(2) by simp
  have ih: "length (received (snd (put_loop (etcd_lib m u) mid url' (r + 1) w1)))
      \<le> length (received w1) + n" for url'
    using Suc.hyps(1) [OF n, of url' w1] n by simp
  from Suc.hyps(2) have "nat (maxEtcdRedirects + 1 - r) = Suc n" by simp
  with le s len ih show ?case
    by (auto simp: put_loop_etcd [of m u mid url r w] split: sum.splits)
qed

lemma put_world:
  "snd (put lib cfg mid i w) = snd (put_loop lib mid (slotUrl cfg i @ ''?prevExist=false'') 0 w)"
  by (simp add: put_def split: prod.splits sum.splits)

lemma put_loop_extends:
  "\<exists>rest. received (snd (put_loop (etcd_lib m u) mid url r w)) = received w @ rest"
proof (induction "nat (maxEtcdRedirects + 1 - r)" arbitrary: url r w)
  case 0
  then have "r > maxEtcdRedirects" by simp
  then show ?case by (simp add: put_loop_too_many)
next
  case (Suc n)
  then have le: "\<not> r > maxEtcdRedirects" by simp
  obtain r1 w1 where s: "serve m (writeRequest mid url) w = (r1, w1)"
    by (cases "serve m (writeRequest mid url) w")
  from serve_received [of m "writeRequest mid url" w] s
  have w1: "received w1 = received w @ [writeRequest mid url]" by simp
  have n: "n = nat (maxEtcdRedirects + 1 - (r + 1))" using Suc.hyps(2) by simp
  have "\<exists>rest. received (snd (put_loop (etcd_lib m u) mid url' (r + 1) w1))
      = received w1 @ rest" for url'
    using Suc.hyps(1) [OF n, of url' w1] .
  with le s w1 show ?case
    by (auto simp: put_loop_etcd [of m u mid url r w] split: sum.splits)
qed

lemma put_loop_first:
  assumes "r \<le> maxEtcdRedirects"
  shows "\<exists>rest. received (snd (put_loop (etcd_lib m u) mid url r w))
     = received w @ writeRequest mid url # rest"
proof -
  obtain r1 w1 where s: "serve m (writeRequest mid url) w = (r1, w1)"
    by (cases "serve m (writeRequest mid url) w")
  from serve_received [of m "writeRequest mid url" w] s
  have w1: "received w1 = received w @ [writeRequest mid url]" by simp
  have "\<exists>rest. received (snd (put_loop (etcd_lib m u) mid url' (r + 1) w1))
      = received w @ writeRequest mid url # rest" for url'
    using put_loop_extends [of m u mid url' "r + 1" w1] w1 by auto
  with assms s w1 show ?thesis
    by (auto simp: put_loop_etcd [of m u mid url r w] split: sum.splits)
qed

lemma targets_path_query:
  "\<forall>h\<in>set hosts. CHR ''/'' \<notin> set h \<Longrightarrow>
   path_query (last (targets url hosts)) = path_query url"
proof (induction hosts arbitrary: url)
  case Nil
  then show ?case by simp
next
  case (Cons h hosts)
  then have "path_query (last (targets (''http://'' @ h @ path_query url) hosts))
      = path_query (''http://'' @ h @ path_query url)"
    by simp
  with Cons.prems path_query_redirect [of h url] show ?case by simp
qed

lemma put_error:
  "put_loop lib mid (slotUrl cfg i @ ''?prevExist=false'') 0 w = (Inl e, w') \<Longrightarrow>
   put lib cfg mid i w = (Inl e, w')"
  by (simp add: put_def)

lemma put_created:
  "put_loop lib mid (slotUrl cfg i @ ''?prevExist=false'') 0 w = (Inr res, w') \<Longrightarrow>
   StatusCode res = StatusCreated \<Longrightarrow>
   put lib cfg mid i w = (Inr True, w')"
  by (simp add: put_def StatusCreated_def StatusPreconditionFailed_def)

text \<open>
  C5. \<^verbatim>\<open>put\<close> always returns, after at most 11 requests. When the store answers eleven
  requests in a row with a redirect, \<^verbatim>\<open>put\<close> has sent the same write (method, header
  and body) to the first address and to each of the first ten locations, and returns
  the error \<^verbatim>\<open>Too much redirects (10)\<close> naming the eleventh location. Up to ten
  redirects are followed: after them the leader's answer decides, here the creation of
  an absent slot.
\<close>

theorem redirects_bounded:
  "(script w = map Redirect hosts @ rest \<and> length hosts = 11 \<longrightarrow>
      put (etcd_lib m u) cfg mid i w =
        (Inl (New (''Too much redirects (10) from ETCD while creating key ''
                     @ last (targets (slotUrl cfg i @ ''?prevExist=false'') hosts))),
         w\<lparr>script := rest,
            received := received w @ map (writeRequest mid)
              (butlast (targets (slotUrl cfg i @ ''?prevExist=false'') hosts))\<rparr>)) \<and>
   (script w = map Redirect hosts \<and> length hosts \<le> 10 \<and> (\<forall>h\<in>set hosts. CHR ''/'' \<notin> set h) \<and>
    plain cfg \<and> map_of (store w) (slotKey cfg i) = None \<longrightarrow>
      put (etcd_lib m u) cfg mid i w =
        (Inr True,
         w\<lparr>store := store w @ [(slotKey cfg i, mid)], script := [],
            received := received w @ map (writeRequest mid)
              (targets (slotUrl cfg i @ ''?prevExist=false'') hosts)\<rparr>)) \<and>
   length (received (snd (put (etcd_lib m u) cfg mid i w))) \<le> length (received w) + 11"
proof (intro conjI impI)
  let ?E = "etcd_lib m u"
  let ?url = "slotUrl cfg i @ ''?prevExist=false''"
  assume a: "script w = map Redirect hosts @ rest \<and> length hosts = 11"
  let ?w = "w\<lparr>script := rest,
            received := received w @ map (writeRequest mid) (butlast (targets ?url hosts))\<rparr>"
  from a have "put_loop ?E mid ?url 0 w = put_loop ?E mid (last (targets ?url hosts)) 11 ?w"
    using put_loop_followed [of w hosts rest 0 m u mid ?url]
    by (simp add: maxEtcdRedirects_def)
  also have "\<dots> = (Inl (New (''Too much redirects (10) from ETCD while creating key ''
                     @ last (targets ?url hosts))), ?w)"
    by (rule put_loop_too_many) (simp add: maxEtcdRedirects_def)
  finally show "put ?E cfg mid i w =
      (Inl (New (''Too much redirects (10) from ETCD while creating key ''
                     @ last (targets ?url hosts))), ?w)"
    by (rule put_error)
next
  let ?E = "etcd_lib m u"
  let ?url = "slotUrl cfg i @ ''?prevExist=false''"
  let ?last = "last (targets ?url hosts)"
  assume a: "script w = map Redirect hosts \<and> length hosts \<le> 10 \<and>
    (\<forall>h\<in>set hosts. CHR ''/'' \<notin> set h) \<and> plain cfg \<and> map_of (store w) (slotKey cfg i) = None"
  let ?w = "w\<lparr>script := [],
            received := received w @ map (writeRequest mid) (butlast (targets ?url hosts))\<rparr>"
  let ?w' = "w\<lparr>store := store w @ [(slotKey cfg i, mid)], script := [],
            received := received w @ map (writeRequest mid) (targets ?url hosts)\<rparr>"
  from a have pq: "path_query ?last = path_query ?url"
    by (intro targets_path_query) simp
  then have kq: "key_of ?last = slotKey cfg i" "query_of ?last = ''?prevExist=false''"
    using a key_of_write [of cfg i] query_of_write [of cfg i]
    by (simp_all add: key_of_def query_of_def)
  have ans: "answer m (store w) (writeRequest mid ?last)
      = (reply 201, store w @ [(slotKey cfg i, mid)])"
    using a kq by (simp add: answer_write)
  have "map (writeRequest mid) (butlast (targets ?url hosts)) @ [writeRequest mid ?last]
      = map (writeRequest mid) (butlast (targets ?url hosts) @ [?last])"
    by (simp only: map_append list.map)
  also have "\<dots> = map (writeRequest mid) (targets ?url hosts)"
    by simp
  finally have w': "\<lparr>store = store w @ [(slotKey cfg i, mid)], script = [],
       received = received ?w @ [writeRequest mid ?last]\<rparr> = ?w'"
    by (cases w) simp
  from a have "put_loop ?E mid ?url 0 w = put_loop ?E mid ?last (int (length hosts)) ?w"
    using put_loop_followed [of w hosts "[]" 0 m u mid ?url]
    by (simp add: maxEtcdRedirects_def)
  also have "\<dots> = (Inr (reply 201), ?w')"
    using a ans w'
    by (simp add: put_loop_etcd [of m u mid ?last] maxEtcdRedirects_def serve_quiet
        StatusTemporaryRedirect_def)
  finally show "put ?E cfg mid i w = (Inr True, ?w')"
    by (rule put_created) (simp add: StatusCreated_def)
next
  show "length (received (snd (put (etcd_lib m u) cfg mid i w))) \<le> length (received w) + 11"
    using put_loop_count [of m u mid "slotUrl cfg i @ ''?prevExist=false''" 0 w]
    by (simp add: put_world maxEtcdRedirects_def)
qed

theorem redirects_bounded_witness:
  "put demo_lib demo ''host-A'' 1 demo_lost =
     (Inl (New ''Too much redirects (10) from ETCD while creating key http://n2:4001/v2/keys/cloudtag/machine-Name/1?prevExist=false''),
      demo_lost\<lparr>script := [Deliver],
        received := map (writeRequest ''host-A'')
          (butlast (targets (slotUrl demo 1 @ ''?prevExist=false'')
             [''n1:4001'', ''n2:4001'', ''n3:4001'', ''n1:4001'', ''n2:4001'', ''n3:4001'',
              ''n1:4001'', ''n2:4001'', ''n3:4001'', ''n1:4001'', ''n2:4001'']))\<rparr>) \<and>
   put demo_lib demo ''host-A'' 1 demo_follower =
     (Inr True,
      demo_follower\<lparr>store := [(slotKey demo 1, ''host-A'')], script := [],
        received := map (writeRequest ''host-A'')
          (targets (slotUrl demo 1 @ ''?prevExist=false'') [''n1:4001'', ''n2:4001''])\<rparr>)"
proof -
  let ?hosts = "[''n1:4001'', ''n2:4001'', ''n3:4001'', ''n1:4001'', ''n2:4001'', ''n3:4001'',
              ''n1:4001'', ''n2:4001'', ''n3:4001'', ''n1:4001'', ''n2:4001'']"
  have a: "script demo_lost = map Redirect ?hosts @ [Deliver]" "length ?hosts = 11"
      "store demo_lost = []" "received demo_lost = []"
    by (simp_all add: demo_lost_def)
  have l: "last (targets (slotUrl demo 1 @ ''?prevExist=false'') ?hosts)
      = ''http://n2:4001/v2/keys/cloudtag/machine-Name/1?prevExist=false''"
    by code_simp
  have b: "script demo_follower = map Redirect [''n1:4001'', ''n2:4001'']"
      "store demo_follower = []" "received demo_follower = []"
    by (simp_all add: demo_follower_def)
  have c: "\<forall>h\<in>set [''n1:4001'', ''n2:4001'']. CHR ''/'' \<notin> set h"
    by simp
  from redirects_bounded [where w = demo_lost and hosts = ?hosts and rest = "[Deliver]"
      and m = bare_marshal and u = bare_unmarshal and cfg = demo and mid = "''host-A''" and i = 1]
    redirects_bounded [where w = demo_follower and hosts = "[''n1:4001'', ''n2:4001'']"
      and m = bare_marshal and u = bare_unmarshal and cfg = demo and mid = "''host-A''" and i = 1
      and rest = "[]"]
    a b c l demo_facts(1)
  show ?thesis by (simp add: demo_lib_def)
qed

subsection \<open>The address of a slot\<close>

lemma get_world:
  "snd (get (etcd_lib m u) cfg i w) = snd (serve m (readRequest cfg i) w)"
  by (simp add: get_def readRequest_def split: prod.splits sum.splits)

lemma key_of_plain:
  assumes "plain cfg" and "CHR ''/'' \<notin> set (etcdAddress cfg)"
  shows "slotKey cfg i = ''/v2/keys'' @ etcdPrefix cfg @ ''/'' @ tagPrefix cfg @ tagName cfg
           @ ''/'' @ fmt_d i"
proof -
  let ?path = "''/v2/keys'' @ etcdPrefix cfg @ ''/'' @ tagPrefix cfg @ tagName cfg @ ''/'' @ fmt_d i"
  have "\<And>c. c \<in> set (etcdAddress cfg) \<Longrightarrow> c \<noteq> CHR ''/''"
    using assms(2) by blast
  then have "dropWhile (\<lambda>c. c \<noteq> CHR ''/'') (etcdAddress cfg @ ?path)
      = dropWhile (\<lambda>c. c \<noteq> CHR ''/'') ?path"
    by (rule dropWhile_append2)
  then have p: "path_query (slotUrl cfg i) = ?path"
    by (simp add: path_query_def slotUrl_split)
  have "CHR ''?'' \<notin> set ?path"
    using plain_slotUrl [OF assms(1), of i] p by simp
  then have "takeWhile (\<lambda>c. c \<noteq> CHR ''?'') ?path = ?path"
    by (intro takeWhile_eq_all_conv [THEN iffD2]) blast
  with p show ?thesis by (simp add: slotKey_def key_of_def)
qed

text \<open>
  C9. For every configuration and index, \<^verbatim>\<open>get\<close> sends its read to
  \<^verbatim>\<open>http://{address}/v2/keys{prefix}/{tag-prefix}{tag-name}/{index}\<close>, and \<^verbatim>\<open>put\<close> sends
  its first write to the same address followed by \<^verbatim>\<open>?prevExist=false\<close>; the store
  takes both to the same key. When the flags hold no question mark and the address no
  slash, that key is \<^verbatim>\<open>/v2/keys{prefix}/{tag-prefix}{tag-name}/{index}\<close>, the path under
  the root \<^verbatim>\<open>/v2/keys\<close> of the key space, and the query of the write is the
  precondition.
\<close>

theorem key_addressing:
  "slotUrl cfg i = ''http://'' @ etcdAddress cfg @ ''/v2/keys'' @ etcdPrefix cfg @ ''/''
      @ tagPrefix cfg @ tagName cfg @ ''/'' @ fmt_d i \<and>
   received (snd (get (etcd_lib m u) cfg i w)) =
     received w @ [\<lparr>Method = ''GET'', URL = slotUrl cfg i, Header = [], Payload = []\<rparr>] \<and>
   (\<exists>rest. received (snd (put (etcd_lib m u) cfg mid i w)) =
     received w @
       \<lparr>Method = ''PUT'', URL = slotUrl cfg i @ ''?prevExist=false'',
        Header = [(''Content-Type'', ''application/x-www-form-urlencoded'')],
        Payload = ''value='' @ mid\<rparr> # rest) \<and>
   key_of (slotUrl cfg i @ ''?prevExist=false'') = key_of (slotUrl cfg i) \<and>
   (plain cfg \<and> CHR ''/'' \<notin> set (etcdAddress cfg) \<longrightarrow>
      key_of (slotUrl cfg i) = ''/v2/keys'' @ etcdPrefix cfg @ ''/'' @ tagPrefix cfg
        @ tagName cfg @ ''/'' @ fmt_d i \<and>
      query_of (slotUrl cfg i @ ''?prevExist=false'') = ''?prevExist=false'')"
proof (intro conjI impI)
  show "slotUrl cfg i = ''http://'' @ etcdAddress cfg @ ''/v2/keys'' @ etcdPrefix cfg @ ''/''
      @ tagPrefix cfg @ tagName cfg @ ''/'' @ fmt_d i"
    by (simp add: slotUrl_def etcdUrl_def)
next
  show "received (snd (get (etcd_lib m u) cfg i w)) =
     received w @ [\<lparr>Method = ''GET'', URL = slotUrl cfg i, Header = [], Payload = []\<rparr>]"
    by (simp add: get_world serve_received) (simp add: readRequest_def)
next
  from put_loop_first [of 0 m u mid "slotUrl cfg i @ ''?prevExist=false''" w]
  show "\<exists>rest. received (snd (put (etcd_lib m u) cfg mid i w)) =
     received w @
       \<lparr>Method = ''PUT'', URL = slotUrl cfg i @ ''?prevExist=false'',
        Header = [(''Content-Type'', ''application/x-www-form-urlencoded'')],
        Payload = ''value='' @ mid\<rparr> # rest"
    by (simp add: put_world maxEtcdRedirects_def writeRequest_def)
next
  show "key_of (slotUrl cfg i @ ''?prevExist=false'') = key_of (slotUrl cfg i)"
    by (simp add: key_of_write slotKey_def)
next
  assume "plain cfg \<and> CHR ''/'' \<notin> set (etcdAddress cfg)"
  then show "key_of (slotUrl cfg i) = ''/v2/keys'' @ etcdPrefix cfg @ ''/'' @ tagPrefix cfg
        @ tagName cfg @ ''/'' @ fmt_d i"
    using key_of_plain [of cfg i] by (simp add: slotKey_def)
next
  assume "plain cfg \<and> CHR ''/'' \<notin> set (etcdAddress cfg)"
  then show "query_of (slotUrl cfg i @ ''?prevExist=false'') = ''?prevExist=false''"
    by (simp add: query_of_write)
qed

theorem key_addressing_witness:
  "slotUrl demo 42 = ''http://localhost:4001/v2/keys/cloudtag/machine-Name/42'' \<and>
   received (snd (get demo_lib demo 42 demo_A)) =
     received demo_A @ [\<lparr>Method = ''GET'',
        URL = ''http://localhost:4001/v2/keys/cloudtag/machine-Name/42'',
        Header = [], Payload = []\<rparr>] \<and>
   key_of (slotUrl demo 42 @ ''?prevExist=false'') = ''/v2/keys/cloudtag/machine-Name/42'' \<and>
   key_of (slotUrl demo 42) = ''/v2/keys/cloudtag/machine-Name/42'' \<and>
   query_of (slotUrl demo 42 @ ''?prevExist=false'') = ''?prevExist=false''"
proof -
  have u: "slotUrl demo 42 = ''http://localhost:4001/v2/keys/cloudtag/machine-Name/42''"
    by code_simp
  have p: "plain demo" "CHR ''/'' \<notin> set (etcdAddress demo)"
    by code_simp+
  have f: "''/v2/keys'' @ etcdPrefix demo @ ''/'' @ tagPrefix demo @ tagName demo @ ''/'' @ fmt_d 42
      = ''/v2/keys/cloudtag/machine-Name/42''"
    by code_simp
  note k = key_addressing [where cfg = demo and i = 42 and m = bare_marshal
      and u = bare_unmarshal and w = demo_A and mid = "''host-A''", folded demo_lib_def]
  from k have g: "received (snd (get demo_lib demo 42 demo_A)) =
     received demo_A @ [\<lparr>Method = ''GET'', URL = slotUrl demo 42, Header = [], Payload = []\<rparr>]"
    by (elim conjE)
  from k have w: "key_of (slotUrl demo 42 @ ''?prevExist=false'') = key_of (slotUrl demo 42)"
    by (elim conjE)
  from k p have q: "key_of (slotUrl demo 42) = ''/v2/keys'' @ etcdPrefix demo @ ''/''
        @ tagPrefix demo @ tagName demo @ ''/'' @ fmt_d 42 \<and>
      query_of (slotUrl demo 42 @ ''?prevExist=false'') = ''?prevExist=false''"
    by (elim conjE) (rule mp, assumption, rule conjI)
  from g w q show ?thesis
    unfolding f u by simp
qed

end
